theory Spec2Isabelle
  imports Main "HOL-Library.Sublist"
begin

section \<open>Names and versions\<close>

text \<open>
  A package name is an interned string (\<^verbatim>\<open>unique.Handle[string]\<close>); two handles are equal
  exactly when their strings are, so a name is modelled by its string.
\<close>

type_synonym Name = string

definition MakeName :: "string \<Rightarrow> Name" where
  "MakeName s = s"

definition EmptyName :: Name where
  "EmptyName = MakeName ''''"

text \<open>
  \<^verbatim>\<open>Version\<close> is an interface with a three-way comparison \<^verbatim>\<open>Sort\<close> and a rendering
  \<^verbatim>\<open>String\<close>. The version type is a parameter \<open>'v\<close> with a linear order; \<^verbatim>\<open>a.Sort(b)\<close> is
  negative, zero or positive as \<open>a\<close> is below, equal to or above \<open>b\<close>. The rendering is a
  function \<open>'v \<Rightarrow> string\<close> handed to the one function that calls it, \<^verbatim>\<open>Satisfies\<close> of an
  \<^verbatim>\<open>EqualsCondition\<close>; nothing is assumed of it, so two versions may share a rendering. A
  version type for which \<^verbatim>\<open>Sort\<close> returns 0 on two versions that render differently (a
  \<^verbatim>\<open>SemanticVersion\<close> with build metadata) is a linear order only after such versions are
  identified, and is covered up to that identification. A \<^verbatim>\<open>nil\<close> interface value is
  \<open>None\<close> of \<open>'v option\<close> wherever the source tests for it.
\<close>

definition Sort :: "'v::linorder \<Rightarrow> 'v \<Rightarrow> int" where
  "Sort a b = (if a < b then - 1 else if a = b then 0 else 1)"

section \<open>Bounds\<close>

text \<open>
  \<^verbatim>\<open>versionBound\<close> is a struct \<^verbatim>\<open>{version, inclusive, infinite}\<close> whose \<^verbatim>\<open>infinite\<close> field
  is one of the three tags \<^verbatim>\<open>boundNegativeInfinity\<close> (-1), \<^verbatim>\<open>boundFinite\<close> (0) and
  \<^verbatim>\<open>boundPositiveInfinity\<close> (1). Every constructor of the source gives an infinite bound
  the fields \<^verbatim>\<open>version = nil\<close> and \<^verbatim>\<open>inclusive = true\<close>, and a finite bound a non-nil
  version, so the struct is the tagged value below.
\<close>

datatype 'v versionBound =
    boundNegativeInfinity
  | boundFinite 'v bool
  | boundPositiveInfinity

fun newLowerBound :: "'v option \<Rightarrow> bool \<Rightarrow> 'v versionBound" where
  "newLowerBound None inclusive = boundNegativeInfinity"
| "newLowerBound (Some version) inclusive = boundFinite version inclusive"

fun newUpperBound :: "'v option \<Rightarrow> bool \<Rightarrow> 'v versionBound" where
  "newUpperBound None inclusive = boundPositiveInfinity"
| "newUpperBound (Some version) inclusive = boundFinite version inclusive"

definition negativeInfinityBound :: "'v versionBound" where
  "negativeInfinityBound = boundNegativeInfinity"

definition positiveInfinityBound :: "'v versionBound" where
  "positiveInfinityBound = boundPositiveInfinity"

fun isNegInfinity :: "'v versionBound \<Rightarrow> bool" where
  "isNegInfinity boundNegativeInfinity = True"
| "isNegInfinity _ = False"

fun isPosInfinity :: "'v versionBound \<Rightarrow> bool" where
  "isPosInfinity boundPositiveInfinity = True"
| "isPosInfinity _ = False"

fun isFinite :: "'v versionBound \<Rightarrow> bool" where
  "isFinite (boundFinite _ _) = True"
| "isFinite _ = False"

text \<open>\<^verbatim>\<open>compareLower\<close>: the cases in the order of the source's \<^verbatim>\<open>switch\<close>.\<close>

fun compareLower :: "'v::linorder versionBound \<Rightarrow> 'v versionBound \<Rightarrow> int" where
  "compareLower boundNegativeInfinity boundNegativeInfinity = 0"
| "compareLower boundNegativeInfinity _ = - 1"
| "compareLower _ boundNegativeInfinity = 1"
| "compareLower boundPositiveInfinity boundPositiveInfinity = 0"
| "compareLower boundPositiveInfinity _ = 1"
| "compareLower _ boundPositiveInfinity = - 1"
| "compareLower (boundFinite va ia) (boundFinite vb ib) =
     (let cmp = Sort va vb in
      if cmp \<noteq> 0 then cmp
      else if ia = ib then 0
      else if ia then - 1
      else 1)"

fun compareUpper :: "'v::linorder versionBound \<Rightarrow> 'v versionBound \<Rightarrow> int" where
  "compareUpper boundPositiveInfinity boundPositiveInfinity = 0"
| "compareUpper boundPositiveInfinity _ = 1"
| "compareUpper _ boundPositiveInfinity = - 1"
| "compareUpper boundNegativeInfinity boundNegativeInfinity = 0"
| "compareUpper boundNegativeInfinity _ = - 1"
| "compareUpper _ boundNegativeInfinity = 1"
| "compareUpper (boundFinite va ia) (boundFinite vb ib) =
     (let cmp = Sort va vb in
      if cmp \<noteq> 0 then cmp
      else if ia = ib then 0
      else if ia then 1
      else - 1)"

section \<open>Intervals\<close>

datatype 'v versionInterval =
  Interval (lower: "'v versionBound") (upper: "'v versionBound")

fun isEmpty :: "'v::linorder versionInterval \<Rightarrow> bool" where
  "isEmpty (Interval boundPositiveInfinity _) = True"
| "isEmpty (Interval _ boundNegativeInfinity) = True"
| "isEmpty (Interval boundNegativeInfinity _) = False"
| "isEmpty (Interval _ boundPositiveInfinity) = False"
| "isEmpty (Interval (boundFinite lv li) (boundFinite uv ui)) =
     (let cmp = Sort lv uv in
      if cmp < 0 then False
      else if cmp > 0 then True
      else \<not> li \<or> \<not> ui)"

text \<open>\<^verbatim>\<open>newInterval\<close> returns \<^verbatim>\<open>(interval, ok)\<close>; \<open>None\<close> is \<^verbatim>\<open>ok = false\<close>.\<close>

definition newInterval ::
  "'v::linorder versionBound \<Rightarrow> 'v versionBound \<Rightarrow> 'v versionInterval option" where
  "newInterval lo up =
     (let interval = Interval lo up in
      if isEmpty interval then None else Some interval)"

definition belowLower :: "'v::linorder \<Rightarrow> 'v versionBound \<Rightarrow> bool" where
  "belowLower version lo =
     (case lo of
        boundFinite lv li \<Rightarrow>
          (let cmp = Sort version lv in cmp < 0 \<or> (cmp = 0 \<and> \<not> li))
      | _ \<Rightarrow> False)"

definition aboveUpper :: "'v::linorder \<Rightarrow> 'v versionBound \<Rightarrow> bool" where
  "aboveUpper version up =
     (case up of
        boundFinite uv ui \<Rightarrow>
          (let cmp = Sort version uv in cmp > 0 \<or> (cmp = 0 \<and> \<not> ui))
      | _ \<Rightarrow> False)"

text \<open>
  \<^verbatim>\<open>contains\<close>: a nil version is in no interval. The lower test is skipped for a lower
  bound of \<open>-\<infinity>\<close> and the upper test for an upper bound of \<open>+\<infinity>\<close>; an interval of the
  source never has \<open>+\<infinity>\<close> below or \<open>-\<infinity>\<close> above (it would be empty), where the source
  would call \<^verbatim>\<open>Sort\<close> with a nil version.
\<close>

fun contains :: "'v::linorder versionInterval \<Rightarrow> 'v option \<Rightarrow> bool" where
  "contains iv None = False"
| "contains iv (Some version) =
     (if \<not> isNegInfinity (lower iv) \<and> belowLower version (lower iv) then False
      else if \<not> isPosInfinity (upper iv) \<and> aboveUpper version (upper iv) then False
      else True)"

fun upperLessThanLower :: "'v::linorder versionBound \<Rightarrow> 'v versionBound \<Rightarrow> bool" where
  "upperLessThanLower boundNegativeInfinity lo = (\<not> isNegInfinity lo)"
| "upperLessThanLower up boundPositiveInfinity = (\<not> isPosInfinity up)"
| "upperLessThanLower boundPositiveInfinity lo = False"
| "upperLessThanLower up boundNegativeInfinity = False"
| "upperLessThanLower (boundFinite uv ui) (boundFinite lv li) =
     (let cmp = Sort uv lv in
      if cmp < 0 then True
      else if cmp > 0 then False
      else \<not> ui \<or> \<not> li)"

definition overlaps :: "'v::linorder versionInterval \<Rightarrow> 'v versionInterval \<Rightarrow> bool" where
  "overlaps iv other =
     (if upperLessThanLower (upper iv) (lower other) then False
      else if upperLessThanLower (upper other) (lower iv) then False
      else True)"

definition touches :: "'v::linorder versionInterval \<Rightarrow> 'v versionInterval \<Rightarrow> bool" where
  "touches iv other =
     (\<not> upperLessThanLower (upper iv) (lower other) \<and>
      \<not> upperLessThanLower (upper other) (lower iv))"

text \<open>The generic \<^verbatim>\<open>min\<close> and \<^verbatim>\<open>max\<close> of the source take the comparison as an argument.\<close>

definition min_cmp :: "'a \<Rightarrow> 'a \<Rightarrow> ('a \<Rightarrow> 'a \<Rightarrow> int) \<Rightarrow> 'a" where
  "min_cmp a b compare = (if compare a b \<le> 0 then a else b)"

definition max_cmp :: "'a \<Rightarrow> 'a \<Rightarrow> ('a \<Rightarrow> 'a \<Rightarrow> int) \<Rightarrow> 'a" where
  "max_cmp a b compare = (if compare a b \<ge> 0 then a else b)"

definition merge :: "'v::linorder versionInterval \<Rightarrow> 'v versionInterval \<Rightarrow> 'v versionInterval" where
  "merge iv other =
     Interval (min_cmp (lower iv) (lower other) compareLower)
              (max_cmp (upper iv) (upper other) compareUpper)"

definition covers :: "'v::linorder versionInterval \<Rightarrow> 'v versionInterval \<Rightarrow> bool" where
  "covers iv other =
     (if compareLower (lower iv) (lower other) > 0 then False
      else if compareUpper (upper iv) (upper other) < 0 then False
      else True)"

fun complementLowerBound :: "'v versionInterval \<Rightarrow> 'v versionBound" where
  "complementLowerBound (Interval lo boundPositiveInfinity) = positiveInfinityBound"
| "complementLowerBound (Interval lo boundNegativeInfinity) = negativeInfinityBound"
| "complementLowerBound (Interval lo (boundFinite uv ui)) = boundFinite uv (\<not> ui)"

fun complementUpperBound :: "'v versionInterval \<Rightarrow> 'v versionBound" where
  "complementUpperBound (Interval boundNegativeInfinity up) = negativeInfinityBound"
| "complementUpperBound (Interval boundPositiveInfinity up) = positiveInfinityBound"
| "complementUpperBound (Interval (boundFinite lv li) up) = boundFinite lv (\<not> li)"

subsection \<open>Normalisation\<close>

text \<open>
  \<^verbatim>\<open>normalizeIntervals\<close> drops the empty intervals, sorts by lower bound and merges in one
  sweep. The sort is \<^verbatim>\<open>slices.SortFunc\<close> with \<^verbatim>\<open>compareLower\<close> on the lower bounds; it is
  modelled by insertion sort, which is what Go runs on slices of at most twelve elements:
  each element in turn is placed behind the elements that do not compare above it.
\<close>

fun insertByLower ::
  "'v::linorder versionInterval \<Rightarrow> 'v versionInterval list \<Rightarrow> 'v versionInterval list" where
  "insertByLower x [] = [x]"
| "insertByLower x (y # ys) =
     (if compareLower (lower x) (lower y) < 0 then x # y # ys
      else y # insertByLower x ys)"

definition sortByLower :: "'v::linorder versionInterval list \<Rightarrow> 'v versionInterval list" where
  "sortByLower xs = foldl (\<lambda>acc x. insertByLower x acc) [] xs"

text \<open>
  The merging sweep: \<open>lastIv\<close> is the last element of \<^verbatim>\<open>merged\<close>, the list argument the
  intervals not visited yet.
\<close>

fun mergeSweep ::
  "'v::linorder versionInterval \<Rightarrow> 'v versionInterval list \<Rightarrow> 'v versionInterval list" where
  "mergeSweep lastIv [] = [lastIv]"
| "mergeSweep lastIv (current # rest) =
     (if touches lastIv current then mergeSweep (merge lastIv current) rest
      else lastIv # mergeSweep current rest)"

definition normalizeIntervals ::
  "'v::linorder versionInterval list \<Rightarrow> 'v versionInterval list" where
  "normalizeIntervals intervals =
     (let filtered = filter (\<lambda>iv. \<not> isEmpty iv) intervals in
      case sortByLower filtered of
        [] \<Rightarrow> []
      | first # rest \<Rightarrow> mergeSweep first rest)"

section \<open>Version sets\<close>

text \<open>
  \<^verbatim>\<open>VersionIntervalSet\<close> holds one slice of intervals; the set is modelled by that list.
  The empty set is the empty list, whether the slice is nil or of length zero.
\<close>

type_synonym 'v VersionSet = "'v versionInterval list"

definition newVersionIntervalSet :: "'v::linorder versionInterval list \<Rightarrow> 'v VersionSet" where
  "newVersionIntervalSet intervals = normalizeIntervals intervals"

definition EmptyVersionSet :: "'v VersionSet" where
  "EmptyVersionSet = []"

definition FullVersionSet :: "'v VersionSet" where
  "FullVersionSet = [Interval negativeInfinityBound positiveInfinityBound]"

definition Singleton :: "'v::linorder option \<Rightarrow> 'v VersionSet" where
  "Singleton version =
     (case version of
        None \<Rightarrow> []
      | Some v \<Rightarrow>
          (case newInterval (newLowerBound (Some v) True) (newUpperBound (Some v) True) of
             Some interval \<Rightarrow> [interval]
           | None \<Rightarrow> []))"

definition intervalSetFromBounds ::
  "'v::linorder versionBound \<Rightarrow> 'v versionBound \<Rightarrow> 'v VersionSet" where
  "intervalSetFromBounds lo up =
     (case newInterval lo up of
        Some interval \<Rightarrow> newVersionIntervalSet [interval]
      | None \<Rightarrow> [])"

definition Union_vs :: "'v::linorder VersionSet \<Rightarrow> 'v VersionSet \<Rightarrow> 'v VersionSet" where
  "Union_vs s other = newVersionIntervalSet (s @ other)"

definition intersectInterval ::
  "'v::linorder versionInterval \<Rightarrow> 'v versionInterval \<Rightarrow> 'v versionInterval option" where
  "intersectInterval a b =
     newInterval (max_cmp (lower a) (lower b) compareLower)
                 (min_cmp (upper a) (upper b) compareUpper)"

fun intersectSweep ::
  "'v::linorder versionInterval list \<Rightarrow> 'v versionInterval list \<Rightarrow> 'v versionInterval list" where
  "intersectSweep [] ys = []"
| "intersectSweep xs [] = []"
| "intersectSweep (a # as) (b # bs) =
     (case intersectInterval a b of Some interval \<Rightarrow> [interval] | None \<Rightarrow> []) @
     (if compareUpper (upper a) (upper b) < 0 then intersectSweep as (b # bs)
      else intersectSweep (a # as) bs)"

definition Intersection :: "'v::linorder VersionSet \<Rightarrow> 'v VersionSet \<Rightarrow> 'v VersionSet" where
  "Intersection s other =
     (if s = [] \<or> other = [] then []
      else newVersionIntervalSet (intersectSweep s other))"

fun complementGaps ::
  "'v::linorder versionBound \<Rightarrow> 'v versionInterval list \<Rightarrow> 'v versionInterval list" where
  "complementGaps currentLower [] =
     (case newInterval currentLower positiveInfinityBound of
        Some tail \<Rightarrow> [tail]
      | None \<Rightarrow> [])"
| "complementGaps currentLower (interval # rest) =
     (case newInterval currentLower (complementUpperBound interval) of
        Some gap \<Rightarrow> [gap]
      | None \<Rightarrow> []) @
     complementGaps (complementLowerBound interval) rest"

definition Complement :: "'v::linorder VersionSet \<Rightarrow> 'v VersionSet" where
  "Complement s =
     (if s = [] then FullVersionSet
      else newVersionIntervalSet (complementGaps negativeInfinityBound s))"

fun Contains :: "'v::linorder VersionSet \<Rightarrow> 'v option \<Rightarrow> bool" where
  "Contains [] version = False"
| "Contains (interval # rest) version =
     (if contains interval version then True else Contains rest version)"

definition IsEmpty :: "'v VersionSet \<Rightarrow> bool" where
  "IsEmpty s = (length s = 0)"

fun subsetSweep ::
  "'v::linorder versionInterval list \<Rightarrow> 'v versionInterval list \<Rightarrow> bool" where
  "subsetSweep [] ys = True"
| "subsetSweep (a # as) [] = False"
| "subsetSweep (a # as) (b # bs) =
     (if covers b a then subsetSweep as (b # bs)
      else if upperLessThanLower (upper b) (lower a) then subsetSweep (a # as) bs
      else False)"

definition IsSubset :: "'v::linorder VersionSet \<Rightarrow> 'v VersionSet \<Rightarrow> bool" where
  "IsSubset s other =
     (if length s = 0 then True
      else if length other = 0 then False
      else subsetSweep s other)"

fun disjointSweep ::
  "'v::linorder versionInterval list \<Rightarrow> 'v versionInterval list \<Rightarrow> bool" where
  "disjointSweep [] ys = True"
| "disjointSweep xs [] = True"
| "disjointSweep (a # as) (b # bs) =
     (if overlaps a b then False
      else if compareUpper (upper a) (upper b) < 0 then disjointSweep as (b # bs)
      else disjointSweep (a # as) bs)"

definition IsDisjoint :: "'v::linorder VersionSet \<Rightarrow> 'v VersionSet \<Rightarrow> bool" where
  "IsDisjoint s other =
     (if length s = 0 then True
      else if length other = 0 then True
      else disjointSweep s other)"

text \<open>\<^verbatim>\<open>setsEqual\<close> of the solver, for two non-nil sets.\<close>

definition setsEqual :: "'v::linorder VersionSet \<Rightarrow> 'v VersionSet \<Rightarrow> bool" where
  "setsEqual a b = (IsSubset a b \<and> IsSubset b a)"

section \<open>Conditions and terms\<close>

text \<open>
  A \<^verbatim>\<open>Condition\<close> is an interface. The solver tells apart the nil interface, the value
  \<^verbatim>\<open>EqualsCondition\<close>, the pointer \<^verbatim>\<open>*EqualsCondition\<close> (\<open>None\<close> is the nil pointer) and the
  pointer \<^verbatim>\<open>*VersionSetCondition\<close> (\<open>None\<close> is a nil pointer or a nil \<^verbatim>\<open>Set\<close>, which the
  source treats alike everywhere); any other implementation is known to it only by its
  \<^verbatim>\<open>Satisfies\<close> method.
\<close>

datatype 'v Condition =
    NoCondition
  | EqualsCondition "'v option"
  | EqualsConditionPtr "'v option option"
  | VersionSetCondition "'v VersionSet option"
  | CustomCondition "'v \<Rightarrow> bool"

definition NewVersionSetCondition :: "'v VersionSet \<Rightarrow> 'v Condition" where
  "NewVersionSetCondition s = VersionSetCondition (Some s)"

text \<open>
  \<^verbatim>\<open>Satisfies\<close> on a non-nil version; \<open>str\<close> is the method \<^verbatim>\<open>String\<close> of the version type.
  \<^verbatim>\<open>EqualsCondition.Satisfies\<close> compares the two \<^verbatim>\<open>String()\<close> renderings, not the versions;
  on a nil \<^verbatim>\<open>Version\<close> field or a nil pointer the call panics, which is \<open>None\<close>.
\<close>

fun Satisfies :: "('v \<Rightarrow> string) \<Rightarrow> 'v::linorder Condition \<Rightarrow> 'v \<Rightarrow> bool option" where
  "Satisfies str NoCondition ver = None"
| "Satisfies str (EqualsCondition None) ver = None"
| "Satisfies str (EqualsCondition (Some c)) ver = Some (str c = str ver)"
| "Satisfies str (EqualsConditionPtr None) ver = None"
| "Satisfies str (EqualsConditionPtr (Some None)) ver = None"
| "Satisfies str (EqualsConditionPtr (Some (Some c))) ver = Some (str c = str ver)"
| "Satisfies str (VersionSetCondition None) ver = Some True"
| "Satisfies str (VersionSetCondition (Some s)) ver = Some (Contains s (Some ver))"
| "Satisfies str (CustomCondition f) ver = Some (f ver)"

record 'v Term =
  Name :: Name
  Condition :: "'v Condition"
  Positive :: bool

definition NewTerm :: "Name \<Rightarrow> 'v Condition \<Rightarrow> 'v Term" where
  "NewTerm name condition = \<lparr>Name = name, Condition = condition, Positive = True\<rparr>"

definition NewNegativeTerm :: "Name \<Rightarrow> 'v Condition \<Rightarrow> 'v Term" where
  "NewNegativeTerm name condition = \<lparr>Name = name, Condition = condition, Positive = False\<rparr>"

definition Negate :: "'v Term \<Rightarrow> 'v Term" where
  "Negate t = \<lparr>Name = Name t, Condition = Condition t, Positive = (\<not> Positive t)\<rparr>"

definition IsPositive :: "'v Term \<Rightarrow> bool" where
  "IsPositive t = Positive t"

text \<open>
  \<^verbatim>\<open>Term.SatisfiedBy\<close>; \<open>None\<close> is a panic inside \<^verbatim>\<open>Condition.Satisfies\<close>, and \<open>str\<close> is the
  method \<^verbatim>\<open>String\<close> of the version type.
\<close>

definition SatisfiedBy ::
  "('v \<Rightarrow> string) \<Rightarrow> 'v::linorder Term \<Rightarrow> 'v option \<Rightarrow> bool option" where
  "SatisfiedBy str t ver =
     (case ver of
        None \<Rightarrow> Some (\<not> Positive t)
      | Some v \<Rightarrow>
          (case Condition t of
             NoCondition \<Rightarrow> Some (Positive t)
           | cond \<Rightarrow>
               (case Satisfies str cond v of
                  None \<Rightarrow> None
                | Some satisfied \<Rightarrow> Some (if Positive t then satisfied else \<not> satisfied))))"

text \<open>
  \<^verbatim>\<open>termAllowedSet\<close> and \<^verbatim>\<open>termForbiddenSet\<close> return \<^verbatim>\<open>(set, ok)\<close>; \<open>None\<close> is
  \<^verbatim>\<open>ok = false\<close>. After the test of the polarity the two functions run the same type
  switch over the condition, which is \<open>conditionSet\<close>.
\<close>

fun conditionSet :: "'v::linorder Condition \<Rightarrow> 'v VersionSet option" where
  "conditionSet NoCondition = Some FullVersionSet"
| "conditionSet (EqualsCondition version) = Some (Singleton version)"
| "conditionSet (EqualsConditionPtr None) = Some FullVersionSet"
| "conditionSet (EqualsConditionPtr (Some version)) = Some (Singleton version)"
| "conditionSet (VersionSetCondition None) = Some FullVersionSet"
| "conditionSet (VersionSetCondition (Some s)) = Some s"
| "conditionSet (CustomCondition f) = None"

definition termAllowedSet :: "'v::linorder Term \<Rightarrow> 'v VersionSet option" where
  "termAllowedSet t = (if \<not> Positive t then None else conditionSet (Condition t))"

definition termForbiddenSet :: "'v::linorder Term \<Rightarrow> 'v VersionSet option" where
  "termForbiddenSet t = (if Positive t then None else conditionSet (Condition t))"

section \<open>Errors\<close>

text \<open>
  The error values the solver tells apart: its own sentinel \<^verbatim>\<open>errNoAllowedVersions\<close>, the
  three conversion failures of \<^verbatim>\<open>applyTermToAllowed\<close> and \<^verbatim>\<open>addDerivation\<close>, the two
  not-found errors of a catalog, \<^verbatim>\<open>DependencyError\<close>, any other error, and an error
  wrapping another (\<^verbatim>\<open>Unwrap\<close>).
\<close>

datatype 'v error =
    errNoAllowedVersions
  | errPositiveConversion
  | errNegativeConversion
  | errForbiddenSet
  | PackageNotFoundError Name
  | PackageVersionNotFoundError Name "'v option"
  | DependencyError Name "'v option" "'v error"
  | OtherError string
  | WrappedError string "'v error"

text \<open>
  \<^verbatim>\<open>errors.As(err, &pkgErr) || errors.As(err, &verErr)\<close>: some error of the \<^verbatim>\<open>Unwrap\<close>
  chain is a \<^verbatim>\<open>*PackageNotFoundError\<close> or a \<^verbatim>\<open>*PackageVersionNotFoundError\<close>.
\<close>

fun isNotFound :: "'v error \<Rightarrow> bool" where
  "isNotFound (PackageNotFoundError n) = True"
| "isNotFound (PackageVersionNotFoundError n v) = True"
| "isNotFound (DependencyError n v e) = isNotFound e"
| "isNotFound (WrappedError msg e) = isNotFound e"
| "isNotFound _ = False"

text \<open>\<^verbatim>\<open>errors.Is(err, errNoAllowedVersions)\<close>.\<close>

fun isNoAllowedVersions :: "'v error \<Rightarrow> bool" where
  "isNoAllowedVersions errNoAllowedVersions = True"
| "isNoAllowedVersions (DependencyError n v e) = isNoAllowedVersions e"
| "isNoAllowedVersions (WrappedError msg e) = isNoAllowedVersions e"
| "isNoAllowedVersions _ = False"

definition applyTermToAllowed ::
  "'v::linorder VersionSet option \<Rightarrow> 'v Term \<Rightarrow> 'v error + 'v VersionSet" where
  "applyTermToAllowed current t =
     (let cur = (case current of None \<Rightarrow> FullVersionSet | Some c \<Rightarrow> c) in
      if Positive t then
        (case termAllowedSet t of
           None \<Rightarrow> Inl errPositiveConversion
         | Some allowed \<Rightarrow> Inr (Intersection cur allowed))
      else
        (case termForbiddenSet t of
           None \<Rightarrow> Inl errNegativeConversion
         | Some forbidden \<Rightarrow> Inr (Intersection cur (Complement forbidden))))"

text \<open>\<^verbatim>\<open>singletonVersionFromSet\<close> returns \<^verbatim>\<open>(version, ok)\<close>.\<close>

fun singletonVersionFromSet :: "'v::linorder VersionSet \<Rightarrow> 'v option" where
  "singletonVersionFromSet [Interval (boundFinite lv li) (boundFinite uv ui)] =
     (if Sort lv uv \<noteq> 0 then None
      else if \<not> li \<or> \<not> ui then None
      else Some lv)"
| "singletonVersionFromSet _ = None"

definition termFromAllowedSet :: "Name \<Rightarrow> 'v::linorder VersionSet \<Rightarrow> 'v Term" where
  "termFromAllowedSet name s =
     (case singletonVersionFromSet s of
        Some version \<Rightarrow>
          \<lparr>Name = name, Condition = EqualsCondition (Some version), Positive = True\<rparr>
      | None \<Rightarrow>
          \<lparr>Name = name, Condition = NewVersionSetCondition s, Positive = True\<rparr>)"

definition termFromForbiddenSet :: "Name \<Rightarrow> 'v VersionSet \<Rightarrow> 'v Term" where
  "termFromForbiddenSet name s =
     \<lparr>Name = name, Condition = NewVersionSetCondition s, Positive = False\<rparr>"

section \<open>Incompatibilities\<close>

datatype IncompatibilityKind = KindNoVersions | KindFromDependency | KindConflict

text \<open>
  The struct \<^verbatim>\<open>Incompatibility\<close>; the two cause pointers are \<open>None\<close> when nil, and
  \<^verbatim>\<open>Package\<close> and \<^verbatim>\<open>Version\<close> are \<open>None\<close> when a constructor leaves them at their zero
  value.
\<close>

datatype 'v Incompatibility =
  Incompatibility
    (Terms: "'v Term list")
    (Kind: IncompatibilityKind)
    (Cause1: "'v Incompatibility option")
    (Cause2: "'v Incompatibility option")
    (Package: "Name option")
    (Version: "'v option")

definition NewIncompatibilityNoVersions :: "'v Term \<Rightarrow> 'v Incompatibility" where
  "NewIncompatibilityNoVersions t =
     Incompatibility [t] KindNoVersions None None None None"

definition NewIncompatibilityFromDependency ::
  "Name \<Rightarrow> 'v option \<Rightarrow> 'v Term \<Rightarrow> 'v Incompatibility" where
  "NewIncompatibilityFromDependency pkg ver dependency =
     (let base = NewTerm pkg (EqualsCondition ver);
          negatedDep = Negate dependency;
          terms = [base, negatedDep]
      in Incompatibility terms KindFromDependency None None (Some pkg) ver)"

text \<open>
  The deduplicating loop of \<^verbatim>\<open>NewIncompatibilityConflict\<close>: \<open>seen\<close> holds the names met
  so far (the keys of the source's map), and a term whose name is in it is skipped.
\<close>

fun dedupTerms :: "Name set \<Rightarrow> 'v Term list \<Rightarrow> 'v Term list" where
  "dedupTerms seen [] = []"
| "dedupTerms seen (t # ts) =
     (if Name t \<in> seen then dedupTerms seen ts
      else t # dedupTerms (insert (Name t) seen) ts)"

definition NewIncompatibilityConflict ::
  "'v Term list \<Rightarrow> 'v Incompatibility option \<Rightarrow> 'v Incompatibility option \<Rightarrow> 'v Incompatibility" where
  "NewIncompatibilityConflict terms cause1 cause2 =
     Incompatibility (dedupTerms {} terms) KindConflict cause1 cause2 None None"


section \<open>Assignments and the partial solution\<close>

datatype assignmentKind = assignmentDecision | assignmentDerivation

text \<open>
  The struct \<^verbatim>\<open>assignment\<close>. The fields \<^verbatim>\<open>name\<close> and \<^verbatim>\<open>term\<close> are written \<open>pkgName\<close> and
  \<open>pkgTerm\<close>; a nil \<^verbatim>\<open>allowed\<close>, \<^verbatim>\<open>forbidden\<close>, \<^verbatim>\<open>version\<close> or \<^verbatim>\<open>cause\<close> is \<open>None\<close>.
\<close>

record 'v assignment =
  pkgName :: Name
  pkgTerm :: "'v Term"
  kind :: assignmentKind
  allowed :: "'v VersionSet option"
  forbidden :: "'v VersionSet option"
  version :: "'v option"
  cause :: "'v Incompatibility option"
  decisionLevel :: int
  index :: int

definition isDecision :: "'v assignment \<Rightarrow> bool" where
  "isDecision a = (kind a = assignmentDecision)"

text \<open>
  The struct \<^verbatim>\<open>partialSolution\<close>: the chronological log, the per-package stacks (a Go
  map, where a missing key reads as the nil slice), the decision level, the next index
  and the root's name. The two counters are Go \<^verbatim>\<open>int\<close>s, taken at their width on a 64-bit
  platform: \<^verbatim>\<open>ps.decisionLvl++\<close> and \<^verbatim>\<open>ps.nextIndex++\<close> wrap around from \<open>2\<^sup>6\<^sup>3 - 1\<close> to
  \<open>- 2\<^sup>6\<^sup>3\<close>, which is \<open>wrap64\<close> of the sum.
\<close>

definition maxInt :: int where
  "maxInt = 2 ^ 63 - 1"

definition minInt :: int where
  "minInt = - (2 ^ 63)"

definition wrap64 :: "int \<Rightarrow> int" where
  "wrap64 x = (x + 2 ^ 63) mod 2 ^ 64 - 2 ^ 63"

record 'v partialSolution =
  assignments :: "'v assignment list"
  perPackage :: "Name \<rightharpoonup> 'v assignment list"
  decisionLvl :: int
  nextIndex :: int
  root :: Name

definition newPartialSolution :: "Name \<Rightarrow> 'v partialSolution" where
  "newPartialSolution r =
     \<lparr>assignments = [], perPackage = Map.empty, decisionLvl = 0, nextIndex = 0, root = r\<rparr>"

text \<open>\<open>stackOf ps name\<close> is the read \<^verbatim>\<open>ps.perPackage[name]\<close>.\<close>

definition stackOf :: "'v partialSolution \<Rightarrow> Name \<Rightarrow> 'v assignment list" where
  "stackOf ps name = (case perPackage ps name of None \<Rightarrow> [] | Some stack \<Rightarrow> stack)"

definition newDecisionAssignment ::
  "'v::linorder partialSolution \<Rightarrow> Name \<Rightarrow> 'v option \<Rightarrow> int \<Rightarrow> 'v assignment" where
  "newDecisionAssignment ps name ver level =
     \<lparr>pkgName = name,
      pkgTerm = NewTerm name (EqualsCondition ver),
      kind = assignmentDecision,
      allowed = Some (Singleton ver),
      forbidden = None,
      version = ver,
      cause = None,
      decisionLevel = level,
      index = nextIndex ps\<rparr>"

definition append_assignment :: "'v partialSolution \<Rightarrow> 'v assignment \<Rightarrow> 'v partialSolution" where
  "append_assignment ps assign =
     ps\<lparr>assignments := assignments ps @ [assign],
        perPackage := (perPackage ps)(pkgName assign \<mapsto> stackOf ps (pkgName assign) @ [assign]),
        nextIndex := wrap64 (nextIndex ps + 1)\<rparr>"

definition latest :: "'v partialSolution \<Rightarrow> Name \<Rightarrow> 'v assignment option" where
  "latest ps name =
     (let stack = stackOf ps name in
      if length stack = 0 then None else Some (last stack))"

text \<open>The loop of \<^verbatim>\<open>allowedSet\<close> over the package's stack.\<close>

fun allowedLoop :: "'v::linorder VersionSet \<Rightarrow> 'v assignment list \<Rightarrow> 'v VersionSet" where
  "allowedLoop current [] = current"
| "allowedLoop current (assign # rest) =
     allowedLoop
       (if Positive (pkgTerm assign) then
          (case allowed assign of
             Some a \<Rightarrow> Intersection current a
           | None \<Rightarrow> current)
        else
          (case forbidden assign of
             Some f \<Rightarrow> Intersection current (Complement f)
           | None \<Rightarrow> current))
       rest"

definition allowedSet :: "'v::linorder partialSolution \<Rightarrow> Name \<Rightarrow> 'v VersionSet" where
  "allowedSet ps name =
     (let stack = stackOf ps name; full = FullVersionSet in
      if length stack = 0 then full else allowedLoop full stack)"

definition hasAssignments :: "'v partialSolution \<Rightarrow> Name \<Rightarrow> bool" where
  "hasAssignments ps name = (length (stackOf ps name) > 0)"

text \<open>
  The mutating methods return the new partial solution next to their result.
\<close>

definition addDecision ::
  "'v::linorder partialSolution \<Rightarrow> Name \<Rightarrow> 'v option \<Rightarrow> 'v assignment \<times> 'v partialSolution" where
  "addDecision ps name ver =
     (let ps1 = ps\<lparr>decisionLvl := wrap64 (decisionLvl ps + 1)\<rparr>;
          assign = newDecisionAssignment ps1 name ver (decisionLvl ps1)
      in (assign, append_assignment ps1 assign))"

definition seedRoot ::
  "'v::linorder partialSolution \<Rightarrow> Name \<Rightarrow> 'v option \<Rightarrow> 'v assignment \<times> 'v partialSolution" where
  "seedRoot ps name ver =
     (let assign = newDecisionAssignment ps name ver 0
      in (assign, append_assignment ps assign))"

text \<open>
  \<^verbatim>\<open>addDerivation\<close> returns \<^verbatim>\<open>(assignment, changed, error)\<close>: the first component is the
  error or the pair of the returned assignment and the flag, the second the partial
  solution as the call leaves it.
\<close>

definition addDerivation ::
  "'v::linorder partialSolution \<Rightarrow> 'v Term \<Rightarrow> 'v Incompatibility option \<Rightarrow>
     ('v error + 'v assignment \<times> bool) \<times> 'v partialSolution" where
  "addDerivation ps t c =
     (let currentAllowed = allowedSet ps (Name t) in
      case applyTermToAllowed (Some currentAllowed) t of
        Inl err \<Rightarrow> (Inl err, ps)
      | Inr newAllowed \<Rightarrow>
          if IsEmpty newAllowed then (Inl errNoAllowedVersions, ps)
          else
            (let assign0 =
                   \<lparr>pkgName = Name t,
                    pkgTerm = t,
                    kind = assignmentDerivation,
                    allowed = None,
                    forbidden = None,
                    version = None,
                    cause = c,
                    decisionLevel = decisionLvl ps,
                    index = nextIndex ps\<rparr>;
                 filled =
                   (if Positive t then Inr (assign0\<lparr>allowed := Some newAllowed\<rparr>)
                    else
                      (case termForbiddenSet t of
                         None \<Rightarrow> Inl errForbiddenSet
                       | Some f \<Rightarrow> Inr (assign0\<lparr>forbidden := Some f\<rparr>)))
             in case filled of
                  Inl err \<Rightarrow> (Inl err, ps)
                | Inr assign \<Rightarrow>
                    (let changed = (\<not> setsEqual currentAllowed newAllowed);
                         ps1 = append_assignment ps assign
                     in if changed \<and> Positive t then (Inr (assign, True), ps1)
                        else if changed \<and> \<not> Positive t then
                          (let tightening =
                                 \<lparr>pkgName = Name t,
                                  pkgTerm = termFromAllowedSet (Name t) newAllowed,
                                  kind = assignmentDerivation,
                                  allowed = Some newAllowed,
                                  forbidden = None,
                                  version = None,
                                  cause = c,
                                  decisionLevel = decisionLvl ps1,
                                  index = nextIndex ps1\<rparr>
                           in (Inr (tightening, True), append_assignment ps1 tightening))
                        else (Inr (assign, changed), ps1))))"

text \<open>
  \<^verbatim>\<open>backtrack\<close>: one pass of the loop removes the last assignment of the log and the last
  element of that package's stack, deleting the map entry when the stack becomes empty.
\<close>

definition popLast :: "'v partialSolution \<Rightarrow> 'v partialSolution" where
  "popLast ps =
     (let lastA = last (assignments ps);
          stack = stackOf ps (pkgName lastA)
      in ps\<lparr>assignments := butlast (assignments ps),
            perPackage :=
              (if length stack > 0 then
                 (if length (butlast stack) = 0 then (perPackage ps)(pkgName lastA := None)
                  else (perPackage ps)(pkgName lastA \<mapsto> butlast stack))
               else perPackage ps)\<rparr>)"

function backtrackLoop :: "int \<Rightarrow> 'v partialSolution \<Rightarrow> 'v partialSolution" where
  "backtrackLoop level ps =
     (if length (assignments ps) > 0 then
        (if decisionLevel (last (assignments ps)) \<le> level then ps
         else backtrackLoop level (popLast ps))
      else ps)"
  by pat_completeness auto
termination
  by (relation "measure (\<lambda>(level, ps). length (assignments ps))")
     (auto simp: popLast_def Let_def)

definition backtrack :: "'v partialSolution \<Rightarrow> int \<Rightarrow> 'v partialSolution" where
  "backtrack ps level =
     (let lvl = (if level < 0 then 0 else level)
      in (backtrackLoop lvl ps)\<lparr>decisionLvl := lvl\<rparr>)"

fun hasDecisionLoop :: "'v assignment list \<Rightarrow> bool" where
  "hasDecisionLoop [] = False"
| "hasDecisionLoop (assign # rest) =
     (if kind assign = assignmentDecision then True else hasDecisionLoop rest)"

definition hasDecision :: "'v partialSolution \<Rightarrow> Name \<Rightarrow> bool" where
  "hasDecision ps name = hasDecisionLoop (stackOf ps name)"

text \<open>
  \<^verbatim>\<open>isComplete\<close> ranges over the entries of the map \<^verbatim>\<open>perPackage\<close>: every package other
  than the root has a decision in its stack.
\<close>

definition isComplete :: "'v partialSolution \<Rightarrow> bool" where
  "isComplete ps =
     (\<forall>name\<in>dom (perPackage ps). name = root ps \<or> hasDecisionLoop (stackOf ps name))"

fun candidateLoop ::
  "'v partialSolution \<Rightarrow> Name set \<Rightarrow> 'v assignment list \<Rightarrow> Name option" where
  "candidateLoop ps seen [] = None"
| "candidateLoop ps seen (assign # rest) =
     (let name = pkgName assign in
      if name = root ps then candidateLoop ps seen rest
      else if name \<in> seen then candidateLoop ps seen rest
      else if \<not> hasDecision ps name then Some name
      else candidateLoop ps (insert name seen) rest)"

definition nextDecisionCandidate :: "'v partialSolution \<Rightarrow> Name option" where
  "nextDecisionCandidate ps = candidateLoop ps {} (assignments ps)"

text \<open>\<^verbatim>\<open>NameVersion\<close> and \<^verbatim>\<open>Solution\<close>, and the loop of \<^verbatim>\<open>buildSolution\<close>.\<close>

datatype 'v NameVersion = NameVersion (nvName: Name) (nvVersion: "'v option")

type_synonym 'v Solution = "'v NameVersion list"

fun buildLoop :: "Name set \<Rightarrow> 'v assignment list \<Rightarrow> 'v Solution" where
  "buildLoop seen [] = []"
| "buildLoop seen (assign # rest) =
     (if kind assign \<noteq> assignmentDecision then buildLoop seen rest
      else if pkgName assign \<in> seen then buildLoop seen rest
      else NameVersion (pkgName assign) (version assign) #
           buildLoop (insert (pkgName assign) seen) rest)"

definition buildSolution :: "'v partialSolution \<Rightarrow> 'v Solution" where
  "buildSolution ps = buildLoop {} (assignments ps)"


section \<open>The solver state\<close>

text \<open>
  A \<^verbatim>\<open>Source\<close> is the catalog: two methods that return a value or an error. The listed
  versions are non-nil.
\<close>

record 'v Source =
  GetVersions :: "Name \<Rightarrow> 'v error + 'v list"
  GetDependencies :: "Name \<Rightarrow> 'v option \<Rightarrow> 'v error + 'v Term list"

record SolverOptions =
  TrackIncompatibilities :: bool
  MaxSteps :: int

record 'v solverState =
  source :: "'v Source"
  options :: SolverOptions
  partial :: "'v partialSolution"
  incompatibilities :: "Name \<rightharpoonup> 'v Incompatibility list"
  learned :: "'v Incompatibility list"
  queue :: "Name list"
  queued :: "Name set"

definition newSolverState :: "'v Source \<Rightarrow> SolverOptions \<Rightarrow> Name \<Rightarrow> 'v solverState" where
  "newSolverState src opts r =
     \<lparr>source = src, options = opts, partial = newPartialSolution r,
      incompatibilities = Map.empty, learned = [], queue = [], queued = {}\<rparr>"

definition enqueue :: "'v solverState \<Rightarrow> Name \<Rightarrow> 'v solverState" where
  "enqueue st name =
     (if name \<in> queued st then st
      else st\<lparr>queue := queue st @ [name], queued := insert name (queued st)\<rparr>)"

fun watchTerms ::
  "'v Incompatibility \<Rightarrow> (Name \<rightharpoonup> 'v Incompatibility list) \<Rightarrow> 'v Term list \<Rightarrow>
     (Name \<rightharpoonup> 'v Incompatibility list)" where
  "watchTerms incomp m [] = m"
| "watchTerms incomp m (t # ts) =
     watchTerms incomp
       (m(Name t \<mapsto> (case m (Name t) of None \<Rightarrow> [] | Some l \<Rightarrow> l) @ [incomp])) ts"

definition addIncompatibility :: "'v solverState \<Rightarrow> 'v Incompatibility \<Rightarrow> 'v solverState" where
  "addIncompatibility st incomp =
     (let st1 = st\<lparr>incompatibilities := watchTerms incomp (incompatibilities st) (Terms incomp)\<rparr>
      in if TrackIncompatibilities (options st1) then st1\<lparr>learned := learned st1 @ [incomp]\<rparr>
         else st1)"

subsection \<open>Resolution of two incompatibilities\<close>

definition mergeTerms :: "'v::linorder Term \<Rightarrow> 'v Term \<Rightarrow> 'v Term option" where
  "mergeTerms a b =
     (if Name a \<noteq> Name b then None
      else if Positive a \<and> Positive b then
        (case (termAllowedSet a, termAllowedSet b) of
           (Some setA, Some setB) \<Rightarrow> Some (termFromAllowedSet (Name a) (Intersection setA setB))
         | _ \<Rightarrow> None)
      else if \<not> Positive a \<and> \<not> Positive b then
        (case (termForbiddenSet a, termForbiddenSet b) of
           (Some forbA, Some forbB) \<Rightarrow> Some (termFromForbiddenSet (Name a) (Union_vs forbA forbB))
         | _ \<Rightarrow> None)
      else None)"

fun collectConflictTerms ::
  "Name \<Rightarrow> (Name \<rightharpoonup> 'v Term) \<Rightarrow> 'v Term list \<Rightarrow> (Name \<rightharpoonup> 'v Term)" where
  "collectConflictTerms pkg terms [] = terms"
| "collectConflictTerms pkg terms (t # ts) =
     (if Name t = pkg then collectConflictTerms pkg terms ts
      else collectConflictTerms pkg (terms(Name t \<mapsto> t)) ts)"

fun collectCauseTerms ::
  "Name \<Rightarrow> (Name \<rightharpoonup> 'v::linorder Term) \<Rightarrow> 'v Term list \<Rightarrow> (Name \<rightharpoonup> 'v Term)" where
  "collectCauseTerms pkg terms [] = terms"
| "collectCauseTerms pkg terms (t # ts) =
     (if Name t = pkg then collectCauseTerms pkg terms ts
      else
        (case terms (Name t) of
           Some existing \<Rightarrow>
             (case mergeTerms existing t of
                Some merged \<Rightarrow> collectCauseTerms pkg (terms(Name t \<mapsto> merged)) ts
              | None \<Rightarrow> collectCauseTerms pkg (terms(Name t \<mapsto> t)) ts)
         | None \<Rightarrow> collectCauseTerms pkg (terms(Name t \<mapsto> t)) ts))"

fun emitTerms ::
  "Name \<Rightarrow> (Name \<rightharpoonup> 'v Term) \<Rightarrow> 'v Term list \<Rightarrow> 'v Term list \<times> (Name \<rightharpoonup> 'v Term)" where
  "emitTerms pkg terms [] = ([], terms)"
| "emitTerms pkg terms (t # ts) =
     (if Name t = pkg then emitTerms pkg terms ts
      else
        (case terms (Name t) of
           Some found \<Rightarrow>
             (let (out, terms') = emitTerms pkg (terms(Name t := None)) ts
              in (found # out, terms'))
         | None \<Rightarrow> emitTerms pkg terms ts))"

definition resolveIncompatibility ::
  "'v::linorder Incompatibility \<Rightarrow> 'v Incompatibility \<Rightarrow> Name \<Rightarrow> 'v Incompatibility" where
  "resolveIncompatibility conflict c pkg =
     (let terms0 = collectConflictTerms pkg Map.empty (Terms conflict);
          terms1 = collectCauseTerms pkg terms0 (Terms c);
          (fromConflict, terms2) = emitTerms pkg terms1 (Terms conflict);
          (fromCause, terms3) = emitTerms pkg terms2 (Terms c)
      in NewIncompatibilityConflict (fromConflict @ fromCause) (Some conflict) (Some c))"

subsection \<open>Registering dependencies\<close>

text \<open>
  \<^verbatim>\<open>applyConstraint\<close> and \<^verbatim>\<open>registerDependencies\<close> return \<^verbatim>\<open>(conflict, error)\<close> and change
  the state; the model returns the error or the optional conflict, and the state.
\<close>

definition applyConstraint ::
  "'v::linorder solverState \<Rightarrow> 'v Term \<Rightarrow> 'v Incompatibility option \<Rightarrow>
     ('v error + 'v Incompatibility option) \<times> 'v solverState" where
  "applyConstraint st t c =
     (case addDerivation (partial st) t c of
        (Inl err, ps') \<Rightarrow>
          if isNoAllowedVersions err then
            (let base = NewIncompatibilityNoVersions t in
             case c of
               Some cs \<Rightarrow>
                 (Inr (Some (NewIncompatibilityConflict (Terms cs @ Terms base) (Some base) (Some cs))),
                  st\<lparr>partial := ps'\<rparr>)
             | None \<Rightarrow> (Inr (Some base), st\<lparr>partial := ps'\<rparr>))
          else (Inl err, st\<lparr>partial := ps'\<rparr>)
      | (Inr (assign, changed), ps') \<Rightarrow>
          (Inr None, enqueue (st\<lparr>partial := ps'\<rparr>) (pkgName assign)))"

fun registerDependencies ::
  "'v::linorder solverState \<Rightarrow> Name \<Rightarrow> 'v option \<Rightarrow> 'v Term list \<Rightarrow>
     ('v error + 'v Incompatibility option) \<times> 'v solverState" where
  "registerDependencies st pkg ver [] = (Inr None, st)"
| "registerDependencies st pkg ver (dep # deps) =
     (let incomp = NewIncompatibilityFromDependency pkg ver dep;
          st1 = addIncompatibility st incomp
      in case applyConstraint st1 dep (Some incomp) of
           (Inl err, st2) \<Rightarrow> (Inl err, st2)
         | (Inr (Some conflict), st2) \<Rightarrow> (Inr (Some conflict), st2)
         | (Inr None, st2) \<Rightarrow> registerDependencies st2 pkg ver deps)"

subsection \<open>Version selection and the decision step\<close>

text \<open>
  The downward scan of \<^verbatim>\<open>pickVersion\<close>, on the version list reversed: the first listed
  version the allowed set contains.
\<close>

fun firstContained :: "'v::linorder VersionSet \<Rightarrow> 'v list \<Rightarrow> 'v option" where
  "firstContained allowedVs [] = None"
| "firstContained allowedVs (ver # rest) =
     (if Contains allowedVs (Some ver) then Some ver else firstContained allowedVs rest)"

text \<open>
  \<^verbatim>\<open>pickVersion\<close> returns \<^verbatim>\<open>(version, found, error)\<close>: \<open>Inl\<close> is the error,
  \<open>Inr None\<close> is \<^verbatim>\<open>(nil, false, nil)\<close> and \<open>Inr (Some v)\<close> is \<^verbatim>\<open>(v, true, nil)\<close>.
\<close>

definition pickVersion :: "'v::linorder solverState \<Rightarrow> Name \<Rightarrow> 'v error + 'v option" where
  "pickVersion st name =
     (let allowedVs = allowedSet (partial st) name in
      if IsEmpty allowedVs then Inr None
      else
        (case GetVersions (source st) name of
           Inl err \<Rightarrow> if isNotFound err then Inr None else Inl err
         | Inr versions \<Rightarrow> Inr (firstContained allowedVs (rev versions))))"

text \<open>
  One iteration of the loop of \<^verbatim>\<open>Solve\<close> either returns from \<^verbatim>\<open>Solve\<close> with an error
  (\<open>Fatal\<close>) or with a solution (\<open>Solved\<close>), or goes on to the next iteration with a new
  state and a new value of the variable \<^verbatim>\<open>conflict\<close> (\<open>None\<close> is nil). \<open>decide\<close> is the
  part of the loop body from the call of \<^verbatim>\<open>pickVersion\<close> for the candidate \<^verbatim>\<open>nextPkg\<close> to
  the end of the body; \<open>afterPropagation\<close> is the part that follows a propagation without
  conflict, which holds the two places where \<^verbatim>\<open>Solve\<close> returns a solution.
\<close>

datatype 'v iteration =
    Fatal "'v error"
  | Solved "'v Solution"
  | NextIteration "'v solverState" "'v Incompatibility option"

definition decide :: "'v::linorder solverState \<Rightarrow> Name \<Rightarrow> 'v iteration" where
  "decide st nextPkg =
     (case pickVersion st nextPkg of
        Inl err \<Rightarrow> Fatal err
      | Inr None \<Rightarrow>
          (let allowedVs = allowedSet (partial st) nextPkg;
               conflict0 = NewIncompatibilityNoVersions (termFromAllowedSet nextPkg allowedVs);
               conflict =
                 (case latest (partial st) nextPkg of
                    Some support \<Rightarrow>
                      (case cause support of
                         Some c \<Rightarrow> resolveIncompatibility conflict0 c nextPkg
                       | None \<Rightarrow> conflict0)
                  | None \<Rightarrow> conflict0)
           in NextIteration (addIncompatibility st conflict) (Some conflict))
      | Inr (Some ver) \<Rightarrow>
          (let (assign, ps1) = addDecision (partial st) nextPkg (Some ver);
               st1 = st\<lparr>partial := ps1\<rparr>
           in case GetDependencies (source st1) nextPkg (Some ver) of
                Inl err \<Rightarrow> Fatal (DependencyError nextPkg (Some ver) err)
              | Inr deps \<Rightarrow>
                  (case registerDependencies st1 nextPkg (Some ver) deps of
                     (Inl err, st2) \<Rightarrow> Fatal (DependencyError nextPkg (Some ver) err)
                   | (Inr (Some depConflict), st2) \<Rightarrow> NextIteration st2 (Some depConflict)
                   | (Inr None, st2) \<Rightarrow> NextIteration (enqueue st2 (pkgName assign)) None)))"

definition afterPropagation :: "'v::linorder solverState \<Rightarrow> 'v iteration" where
  "afterPropagation st =
     (if isComplete (partial st) then Solved (buildSolution (partial st))
      else
        (case nextDecisionCandidate (partial st) of
           None \<Rightarrow> Solved (buildSolution (partial st))
         | Some nextPkg \<Rightarrow> decide st nextPkg))"




subsection \<open>Classifying an incompatibility\<close>

datatype incompatibilityRelation =
    relationSatisfied
  | relationAlmostSatisfied
  | relationContradicted
  | relationInconclusive

text \<open>
  \<^verbatim>\<open>relationForTerm\<close> returns a relation and an error that is nil on every path; the model
  returns the relation. A nil \<^verbatim>\<open>allowed\<close> argument is \<open>None\<close>.
\<close>

definition relationForTerm ::
  "'v::linorder Term \<Rightarrow> 'v VersionSet option \<Rightarrow> bool \<Rightarrow> incompatibilityRelation" where
  "relationForTerm t allowedArg hasAssignment =
     (let allowedVs = (case allowedArg of None \<Rightarrow> FullVersionSet | Some a \<Rightarrow> a) in
      if Positive t then
        (case termAllowedSet t of
           None \<Rightarrow> relationInconclusive
         | Some required \<Rightarrow>
             if IsSubset allowedVs required then
               (if hasAssignment then relationSatisfied else relationInconclusive)
             else if IsDisjoint allowedVs required then relationContradicted
             else relationInconclusive)
      else
        (case termForbiddenSet t of
           None \<Rightarrow> relationInconclusive
         | Some forbiddenVs \<Rightarrow>
             if IsDisjoint allowedVs forbiddenVs then relationSatisfied
             else if IsSubset allowedVs forbiddenVs then
               (if hasAssignment then relationContradicted else relationInconclusive)
             else relationInconclusive))"

text \<open>
  The loop of \<^verbatim>\<open>evaluateIncompatibility\<close>; \<open>unsatisfied\<close> is the pointer of the same name.
\<close>

fun evaluateLoop ::
  "'v::linorder partialSolution \<Rightarrow> 'v Term option \<Rightarrow> 'v Term list \<Rightarrow>
     incompatibilityRelation \<times> 'v Term option" where
  "evaluateLoop ps unsatisfied [] =
     (case unsatisfied of
        None \<Rightarrow> (relationSatisfied, None)
      | Some u \<Rightarrow> (relationAlmostSatisfied, Some u))"
| "evaluateLoop ps unsatisfied (t # ts) =
     (case relationForTerm t (Some (allowedSet ps (Name t))) (hasAssignments ps (Name t)) of
        relationContradicted \<Rightarrow> (relationContradicted, None)
      | relationSatisfied \<Rightarrow> evaluateLoop ps unsatisfied ts
      | relationInconclusive \<Rightarrow>
          (case unsatisfied of
             Some u \<Rightarrow> (relationInconclusive, None)
           | None \<Rightarrow> evaluateLoop ps (Some t) ts)
      | relationAlmostSatisfied \<Rightarrow> evaluateLoop ps unsatisfied ts)"

definition evaluateIncompatibility ::
  "'v::linorder solverState \<Rightarrow> 'v Incompatibility \<Rightarrow> incompatibilityRelation \<times> 'v Term option" where
  "evaluateIncompatibility st inc = evaluateLoop (partial st) None (Terms inc)"



section \<open>Partial solutions the solver can reach\<close>

text \<open>
  The solver creates a partial solution, seeds the root in it and from then on changes it
  only through \<^verbatim>\<open>addDecision\<close>, \<^verbatim>\<open>addDerivation\<close> and \<^verbatim>\<open>backtrack\<close>. The predicate
  \<open>reachable\<close> allows every call of the three methods, with any arguments.
\<close>

inductive reachable :: "'v::linorder partialSolution \<Rightarrow> bool" where
  seeded: "reachable (snd (seedRoot (newPartialSolution r) r ver))"
| decided: "reachable ps \<Longrightarrow> reachable (snd (addDecision ps name ver))"
| derived: "reachable ps \<Longrightarrow> reachable (snd (addDerivation ps t c))"
| backtracked: "reachable ps \<Longrightarrow> reachable (backtrack ps level)"

text \<open>
  \<^verbatim>\<open>backtrack\<close> has one caller, \<^verbatim>\<open>resolveConflict\<close>:
  \<^verbatim>\<open>if satisfier.isDecision() && prevLevel < satisfier.decisionLevel { st.partial.backtrack(prevLevel)\<close>,
  where \<^verbatim>\<open>satisfier\<close> is an element of a per-package stack (the result of
  \<^verbatim>\<open>ps.satisfier\<close>) and \<^verbatim>\<open>prevLevel\<close> is the result of \<^verbatim>\<open>previousDecisionLevel\<close>, a maximum
  that starts at 0. The predicate \<open>solverReachable\<close> allows \<^verbatim>\<open>backtrack\<close> only in such a
  call.
\<close>

inductive solverReachable :: "'v::linorder partialSolution \<Rightarrow> bool" where
  seeded: "solverReachable (snd (seedRoot (newPartialSolution r) r ver))"
| decided: "solverReachable ps \<Longrightarrow> solverReachable (snd (addDecision ps name ver))"
| derived: "solverReachable ps \<Longrightarrow> solverReachable (snd (addDerivation ps t c))"
| backjumped:
    "solverReachable ps \<Longrightarrow> satisfier \<in> set (stackOf ps name) \<Longrightarrow> isDecision satisfier \<Longrightarrow>
     0 \<le> prevLevel \<Longrightarrow> prevLevel < decisionLevel satisfier \<Longrightarrow>
     solverReachable (backtrack ps prevLevel)"


text \<open>
  The per-package stacks that belong to a log: each package's assignments in the order of
  the log, and no entry for a package without any.
\<close>

definition stacksOfLog :: "'v assignment list \<Rightarrow> (Name \<rightharpoonup> 'v assignment list)" where
  "stacksOfLog as n =
     (if filter (\<lambda>a. pkgName a = n) as = [] then None
      else Some (filter (\<lambda>a. pkgName a = n) as))"

text \<open>
  The invariant of every reachable partial solution: the stacks belong to the log, and the
  log starts with the root's decision at level 0.
\<close>

definition consistent :: "'v partialSolution \<Rightarrow> bool" where
  "consistent ps =
     (perPackage ps = stacksOfLog (assignments ps) \<and>
      assignments ps \<noteq> [] \<and>
      decisionLevel (hd (assignments ps)) = 0 \<and>
      kind (hd (assignments ps)) = assignmentDecision \<and>
      pkgName (hd (assignments ps)) = root ps)"

text \<open>
  The invariant of the levels, which holds as long as no increment has wrapped around:
  decision levels never decrease along the log, and the levels in the log are exactly
  those from 0 to the current one.
\<close>

definition levelsOrdered :: "'v partialSolution \<Rightarrow> bool" where
  "levelsOrdered ps =
     (sorted (map decisionLevel (assignments ps)) \<and>
      set (map decisionLevel (assignments ps)) = {0 .. decisionLvl ps} \<and>
      decisionLvl ps \<le> maxInt)"

text \<open>
  What is left of an increment that wrapped around: an assignment of negative level, at a
  position that a Go slice, whose length is an \<^verbatim>\<open>int\<close>, does not have.
\<close>

definition wrapped :: "'v partialSolution \<Rightarrow> bool" where
  "wrapped ps =
     (\<exists>i < length (assignments ps). 2 ^ 63 \<le> int i \<and> decisionLevel (assignments ps ! i) < 0)"

section \<open>Example inputs\<close>

text \<open>
  Versions are natural numbers in the examples. The first catalog lists the versions 1, 2,
  3 of package \<open>a\<close>, which has no dependencies, and the version 1 of the root, which
  depends on \<open>a\<close>. In the second catalog the root depends on \<open>b\<close>, which the catalog does
  not list.
\<close>

definition exampleSource :: "nat Source" where
  "exampleSource =
     \<lparr>GetVersions =
        (\<lambda>n. if n = ''a'' then Inr [1, 2, 3]
             else if n = ''$$root'' then Inr [1]
             else Inl (PackageNotFoundError n)),
      GetDependencies =
        (\<lambda>n v. if n = ''$$root'' then Inr [NewTerm ''a'' NoCondition]
               else if n = ''a'' then Inr []
               else Inl (PackageNotFoundError n))\<rparr>"


definition exampleOptions :: SolverOptions where
  "exampleOptions = \<lparr>TrackIncompatibilities = False, MaxSteps = 0\<rparr>"

text \<open>The partial solution after \<^verbatim>\<open>seedRoot\<close>, and the solver state that holds it.\<close>

definition exampleSeeded :: "nat partialSolution" where
  "exampleSeeded = snd (seedRoot (newPartialSolution ''$$root'') ''$$root'' (Some 1))"

definition exampleState :: "nat solverState" where
  "exampleState =
     (newSolverState exampleSource exampleOptions ''$$root'')\<lparr>partial := exampleSeeded\<rparr>"

text \<open>
  The states \<^verbatim>\<open>Solve\<close> goes through on the first catalog: after the root's dependencies
  are registered, and after the decision for \<open>a\<close>.
\<close>

definition exampleRegistered :: "nat solverState" where
  "exampleRegistered =
     snd (registerDependencies exampleState ''$$root'' (Some 1) [NewTerm ''a'' NoCondition])"

definition exampleSolved :: "nat solverState" where
  "exampleSolved =
     (case decide exampleRegistered ''a'' of
        NextIteration st c \<Rightarrow> st
      | _ \<Rightarrow> exampleRegistered)"




text \<open>The two adjacent intervals \<open>[1, 2)\<close> and \<open>[2, 3]\<close>, each a set of its own.\<close>

definition exampleLeft :: "nat VersionSet" where
  "exampleLeft = intervalSetFromBounds (newLowerBound (Some 1) True) (newUpperBound (Some 2) False)"

definition exampleRight :: "nat VersionSet" where
  "exampleRight = intervalSetFromBounds (newLowerBound (Some 2) True) (newUpperBound (Some 3) True)"

text \<open>
  The interval \<open>[1, 3]\<close>, and the partial solution in which package \<open>a\<close> is derived to lie
  in it.
\<close>

definition exampleWhole :: "nat VersionSet" where
  "exampleWhole = intervalSetFromBounds (newLowerBound (Some 1) True) (newUpperBound (Some 3) True)"

definition exampleRanged :: "nat partialSolution" where
  "exampleRanged =
     snd (addDerivation exampleSeeded (NewTerm ''a'' (NewVersionSetCondition exampleWhole)) None)"

text \<open>A rendering of the versions of the examples: the number in unary.\<close>

definition exampleString :: "nat \<Rightarrow> string" where
  "exampleString n = replicate n (CHR ''I'')"

text \<open>
  A partial solution built outside the solver's discipline: the root, a decision,
  \<^verbatim>\<open>backtrack\<close> to the greatest level there is, and one more decision, whose level wraps
  around.
\<close>

definition exampleOverflow :: "nat partialSolution" where
  "exampleOverflow =
     snd (addDecision (backtrack (snd (addDecision exampleSeeded ''a'' (Some 1))) maxInt)
            ''b'' (Some 1))"

section \<open>The counters\<close>

lemma wrap64_id: "minInt \<le> x \<Longrightarrow> x \<le> maxInt \<Longrightarrow> wrap64 x = x"
proof -
  assume "minInt \<le> x" and "x \<le> maxInt"
  then have "0 \<le> x + 2 ^ 63" and "x + 2 ^ 63 < 2 ^ 64"
    by (simp_all add: minInt_def maxInt_def)
  then have "(x + 2 ^ 63) mod 2 ^ 64 = x + 2 ^ 63"
    by (rule mod_pos_pos_trivial)
  then show ?thesis
    by (simp add: wrap64_def)
qed

lemma wrap64_small [simp]: "0 \<le> x \<Longrightarrow> x \<le> 1000 \<Longrightarrow> wrap64 x = x"
  by (rule wrap64_id) (simp_all add: minInt_def maxInt_def)

lemma wrap64_maxInt: "wrap64 (maxInt + 1) = minInt"
  by (simp add: wrap64_def maxInt_def minInt_def)

section \<open>The example states\<close>

lemma Singleton_Some: "Singleton (Some v) = [Interval (boundFinite v True) (boundFinite v True)]"
  by (simp add: Singleton_def newInterval_def Sort_def)

lemma Contains_Full: "Contains FullVersionSet (Some v)"
  by (simp add: FullVersionSet_def negativeInfinityBound_def positiveInfinityBound_def)

lemma Intersection_Full_Full:
  "Intersection FullVersionSet FullVersionSet = (FullVersionSet :: 'v::linorder VersionSet)"
  by (simp add: Intersection_def FullVersionSet_def negativeInfinityBound_def
      positiveInfinityBound_def intersectInterval_def max_cmp_def min_cmp_def newInterval_def
      newVersionIntervalSet_def normalizeIntervals_def sortByLower_def)

lemma setsEqual_Full_Full: "setsEqual FullVersionSet FullVersionSet"
  by (simp add: setsEqual_def IsSubset_def FullVersionSet_def negativeInfinityBound_def
      positiveInfinityBound_def covers_def)

lemma partial_enqueue: "partial (enqueue st n) = partial st"
  by (simp add: enqueue_def)

lemma partial_addIncompatibility: "partial (addIncompatibility st inc) = partial st"
  by (simp add: addIncompatibility_def Let_def)

lemma source_enqueue: "source (enqueue st n) = source st"
  by (simp add: enqueue_def)

lemma source_addIncompatibility: "source (addIncompatibility st inc) = source st"
  by (simp add: addIncompatibility_def Let_def)

lemma stackOf_append_assignment:
  "stackOf (append_assignment ps a) n =
     (if n = pkgName a then stackOf ps n @ [a] else stackOf ps n)"
  by (simp add: append_assignment_def stackOf_def)

text \<open>
  The first derivation for a package, from a dependency on any version of it: the allowed
  set stays the full set, and one assignment is appended.
\<close>

lemma addDerivation_any_first:
  assumes "stackOf ps n = []"
  shows "addDerivation ps (NewTerm n NoCondition) c =
     (Inr (\<lparr>pkgName = n, pkgTerm = NewTerm n NoCondition, kind = assignmentDerivation,
             allowed = Some FullVersionSet, forbidden = None, version = None, cause = c,
             decisionLevel = decisionLvl ps, index = nextIndex ps\<rparr>, False),
      append_assignment ps
        \<lparr>pkgName = n, pkgTerm = NewTerm n NoCondition, kind = assignmentDerivation,
          allowed = Some FullVersionSet, forbidden = None, version = None, cause = c,
          decisionLevel = decisionLvl ps, index = nextIndex ps\<rparr>)"
proof -
  have ne: "\<not> IsEmpty (FullVersionSet :: 'a VersionSet)"
    by (simp add: IsEmpty_def FullVersionSet_def)
  from assms ne show ?thesis
    by (simp add: addDerivation_def allowedSet_def Let_def applyTermToAllowed_def NewTerm_def
        termAllowedSet_def Intersection_Full_Full setsEqual_Full_Full)
qed

lemma registerDependencies_any_first:
  assumes "stackOf (partial st) n = []"
  shows "registerDependencies st pkg ver [NewTerm n NoCondition] =
     (Inr None,
      enqueue
        ((addIncompatibility st (NewIncompatibilityFromDependency pkg ver (NewTerm n NoCondition)))
           \<lparr>partial :=
              snd (addDerivation (partial st) (NewTerm n NoCondition)
                     (Some (NewIncompatibilityFromDependency pkg ver (NewTerm n NoCondition))))\<rparr>)
        n)"
  using assms
  by (simp add: Let_def applyConstraint_def partial_addIncompatibility addDerivation_any_first)

lemma stackOf_exampleSeeded_other:
  "n \<noteq> ''$$root'' \<Longrightarrow> stackOf exampleSeeded n = []"
  by (simp add: exampleSeeded_def seedRoot_def Let_def append_assignment_def
      newPartialSolution_def stackOf_def newDecisionAssignment_def)

lemma allowedSet_exampleSeeded_other:
  "n \<noteq> ''$$root'' \<Longrightarrow> allowedSet exampleSeeded n = FullVersionSet"
  by (simp add: allowedSet_def Let_def stackOf_exampleSeeded_other)

lemma stackOf_exampleSeeded_root:
  "stackOf exampleSeeded ''$$root'' =
     [newDecisionAssignment (newPartialSolution ''$$root'') ''$$root'' (Some 1) 0]"
  by (simp add: exampleSeeded_def seedRoot_def Let_def append_assignment_def
      newPartialSolution_def stackOf_def newDecisionAssignment_def)

lemma allowedSet_exampleSeeded_root:
  "allowedSet exampleSeeded ''$$root'' = [Interval (boundFinite 1 True) (boundFinite 1 True)]"
  by (simp add: allowedSet_def Let_def stackOf_exampleSeeded_root newDecisionAssignment_def
      NewTerm_def Singleton_Some FullVersionSet_def negativeInfinityBound_def
      positiveInfinityBound_def Intersection_def intersectInterval_def max_cmp_def min_cmp_def
      newInterval_def Sort_def newVersionIntervalSet_def normalizeIntervals_def sortByLower_def)

lemma assignments_exampleSeeded:
  "assignments exampleSeeded =
     [\<lparr>pkgName = ''$$root'', pkgTerm = NewTerm ''$$root'' (EqualsCondition (Some 1)),
       kind = assignmentDecision, allowed = Some (Singleton (Some 1)), forbidden = None,
       version = Some 1, cause = None, decisionLevel = 0, index = 0\<rparr>]"
  by (simp add: exampleSeeded_def seedRoot_def Let_def append_assignment_def
      newPartialSolution_def newDecisionAssignment_def)

lemma counters_exampleSeeded:
  "decisionLvl exampleSeeded = 0 \<and> nextIndex exampleSeeded = 1 \<and> root exampleSeeded = ''$$root''"
  by (simp add: exampleSeeded_def seedRoot_def Let_def append_assignment_def
      newPartialSolution_def)

lemma partial_exampleRegistered:
  "partial exampleRegistered =
     snd (addDerivation exampleSeeded (NewTerm ''a'' NoCondition)
            (Some (NewIncompatibilityFromDependency ''$$root'' (Some 1)
                     (NewTerm ''a'' NoCondition))))"
proof -
  have s: "stackOf (partial exampleState) ''a'' = []"
    by (simp add: exampleState_def stackOf_exampleSeeded_other)
  show ?thesis
    unfolding exampleRegistered_def registerDependencies_any_first [OF s]
    by (simp add: partial_enqueue exampleState_def)
qed

lemma source_exampleRegistered: "source exampleRegistered = exampleSource"
proof -
  have s: "stackOf (partial exampleState) ''a'' = []"
    by (simp add: exampleState_def stackOf_exampleSeeded_other)
  show ?thesis
    unfolding exampleRegistered_def registerDependencies_any_first [OF s]
    by (simp add: source_enqueue source_addIncompatibility exampleState_def
        newSolverState_def)
qed

lemma assignments_exampleRegistered:
  "assignments (partial exampleRegistered) =
     [\<lparr>pkgName = ''$$root'', pkgTerm = NewTerm ''$$root'' (EqualsCondition (Some 1)),
       kind = assignmentDecision, allowed = Some (Singleton (Some 1)), forbidden = None,
       version = Some 1, cause = None, decisionLevel = 0, index = 0\<rparr>,
      \<lparr>pkgName = ''a'', pkgTerm = NewTerm ''a'' NoCondition, kind = assignmentDerivation,
       allowed = Some FullVersionSet, forbidden = None, version = None,
       cause = Some (NewIncompatibilityFromDependency ''$$root'' (Some 1)
                       (NewTerm ''a'' NoCondition)),
       decisionLevel = 0, index = 1\<rparr>]"
  by (simp add: partial_exampleRegistered addDerivation_any_first stackOf_exampleSeeded_other
      append_assignment_def assignments_exampleSeeded counters_exampleSeeded)

lemma stackOf_exampleRegistered:
  "stackOf (partial exampleRegistered) ''a'' =
     [\<lparr>pkgName = ''a'', pkgTerm = NewTerm ''a'' NoCondition, kind = assignmentDerivation,
       allowed = Some FullVersionSet, forbidden = None, version = None,
       cause = Some (NewIncompatibilityFromDependency ''$$root'' (Some 1)
                       (NewTerm ''a'' NoCondition)),
       decisionLevel = 0, index = 1\<rparr>]"
  by (simp add: partial_exampleRegistered addDerivation_any_first stackOf_exampleSeeded_other
      stackOf_append_assignment counters_exampleSeeded)

lemma allowedSet_exampleRegistered:
  "allowedSet (partial exampleRegistered) ''a'' = FullVersionSet"
  by (simp add: allowedSet_def Let_def stackOf_exampleRegistered NewTerm_def
      Intersection_Full_Full)

lemma pickVersion_exampleRegistered: "pickVersion exampleRegistered ''a'' = Inr (Some 3)"
proof -
  have ne: "\<not> IsEmpty (FullVersionSet :: nat VersionSet)"
    by (simp add: IsEmpty_def FullVersionSet_def)
  then show ?thesis
    by (simp add: pickVersion_def Let_def allowedSet_exampleRegistered source_exampleRegistered
        exampleSource_def Contains_Full)
qed

lemma decide_exampleRegistered_eq:
  "decide exampleRegistered ''a'' =
     NextIteration
       (enqueue (exampleRegistered
                   \<lparr>partial := snd (addDecision (partial exampleRegistered) ''a'' (Some 3))\<rparr>)
          ''a'')
       None"
  by (simp add: decide_def pickVersion_exampleRegistered Let_def source_exampleRegistered
      exampleSource_def addDecision_def newDecisionAssignment_def split: prod.splits)

lemma exampleSolved_eq:
  "exampleSolved =
     enqueue (exampleRegistered
                \<lparr>partial := snd (addDecision (partial exampleRegistered) ''a'' (Some 3))\<rparr>) ''a''"
  by (simp add: exampleSolved_def decide_exampleRegistered_eq)

lemma decide_exampleRegistered:
  "decide exampleRegistered ''a'' = NextIteration exampleSolved None"
  by (simp add: decide_exampleRegistered_eq exampleSolved_eq)

lemma partial_exampleSolved:
  "partial exampleSolved = snd (addDecision (partial exampleRegistered) ''a'' (Some 3))"
  by (simp add: exampleSolved_eq partial_enqueue)

lemma counters_exampleRegistered:
  "decisionLvl (partial exampleRegistered) = 0 \<and> nextIndex (partial exampleRegistered) = 2 \<and>
   root (partial exampleRegistered) = ''$$root''"
  by (simp add: partial_exampleRegistered addDerivation_any_first stackOf_exampleSeeded_other
      append_assignment_def counters_exampleSeeded)

lemma assignments_exampleSolved:
  "assignments (partial exampleSolved) =
     [\<lparr>pkgName = ''$$root'', pkgTerm = NewTerm ''$$root'' (EqualsCondition (Some 1)),
       kind = assignmentDecision, allowed = Some (Singleton (Some 1)), forbidden = None,
       version = Some 1, cause = None, decisionLevel = 0, index = 0\<rparr>,
      \<lparr>pkgName = ''a'', pkgTerm = NewTerm ''a'' NoCondition, kind = assignmentDerivation,
       allowed = Some FullVersionSet, forbidden = None, version = None,
       cause = Some (NewIncompatibilityFromDependency ''$$root'' (Some 1)
                       (NewTerm ''a'' NoCondition)),
       decisionLevel = 0, index = 1\<rparr>,
      \<lparr>pkgName = ''a'', pkgTerm = NewTerm ''a'' (EqualsCondition (Some 3)),
       kind = assignmentDecision, allowed = Some (Singleton (Some 3)), forbidden = None,
       version = Some 3, cause = None, decisionLevel = 1, index = 2\<rparr>]"
  by (simp add: partial_exampleSolved addDecision_def Let_def append_assignment_def
      newDecisionAssignment_def assignments_exampleRegistered counters_exampleRegistered)

lemma reachable_exampleSolved: "reachable (partial exampleSolved)"
  unfolding partial_exampleSolved partial_exampleRegistered exampleSeeded_def
  by (intro reachable.decided reachable.derived reachable.seeded)


lemma root_exampleSolved: "root (partial exampleSolved) = ''$$root''"
  by (simp add: partial_exampleSolved addDecision_def Let_def append_assignment_def
      counters_exampleRegistered)




section \<open>Version selection\<close>

lemma Contains_not_IsEmpty: "Contains A v \<Longrightarrow> \<not> IsEmpty A"
  by (cases A) (auto simp: IsEmpty_def)

lemma firstContained_Some:
  "firstContained A xs = Some v \<Longrightarrow> v \<in> set xs \<and> Contains A (Some v)"
  by (induction xs) (auto split: if_splits)

lemma firstContained_None:
  "(firstContained A xs = None) = (\<forall>x\<in>set xs. \<not> Contains A (Some x))"
  by (induction xs) auto

lemma firstContained_greatest:
  "sorted (rev xs) \<Longrightarrow> firstContained A xs = Some v \<Longrightarrow> w \<in> set xs \<Longrightarrow>
     Contains A (Some w) \<Longrightarrow> w \<le> v"
proof (induction xs)
  case Nil
  then show ?case by simp
next
  case (Cons x xs)
  from Cons.prems(1) have le: "\<forall>y\<in>set xs. y \<le> x" and srt: "sorted (rev xs)"
    by (auto simp: sorted_append)
  show ?case
  proof (cases "Contains A (Some x)")
    case True
    with Cons.prems(2) have "v = x" by simp
    with Cons.prems(3) le show ?thesis by auto
  next
    case False
    with Cons.prems(2) have fc: "firstContained A xs = Some v" by simp
    from False Cons.prems(3,4) have "w \<in> set xs" by auto
    with Cons.IH srt fc Cons.prems(4) show ?thesis by blast
  qed
qed

lemma addDerivation_extends_log:
  "\<exists>more. assignments (snd (addDerivation ps t c)) = assignments ps @ more"
  by (auto simp: addDerivation_def Let_def append_assignment_def split: sum.splits option.splits)

lemma applyConstraint_extends_log:
  "\<exists>more. assignments (partial (snd (applyConstraint st t c))) = assignments (partial st) @ more"
  using addDerivation_extends_log [of "partial st" t c]
  by (auto simp: applyConstraint_def partial_enqueue Let_def
      split: prod.splits sum.splits option.splits)

lemma registerDependencies_extends_log:
  "\<exists>more. assignments (partial (snd (registerDependencies st pkg ver deps))) =
            assignments (partial st) @ more"
proof (induction deps arbitrary: st)
  case Nil
  then show ?case by simp
next
  case (Cons dep deps)
  define st1 where "st1 = addIncompatibility st (NewIncompatibilityFromDependency pkg ver dep)"
  define r where "r = applyConstraint st1 dep (Some (NewIncompatibilityFromDependency pkg ver dep))"
  from applyConstraint_extends_log [of st1 dep "Some (NewIncompatibilityFromDependency pkg ver dep)"]
  obtain m1 where m1: "assignments (partial (snd r)) = assignments (partial st) @ m1"
    by (auto simp: r_def st1_def partial_addIncompatibility)
  from Cons [of "snd r"] obtain m2 where
    m2: "assignments (partial (snd (registerDependencies (snd r) pkg ver deps))) =
           assignments (partial (snd r)) @ m2"
    by auto
  have eq: "registerDependencies st pkg ver (dep # deps) =
      (case r of
         (Inl err, st2) \<Rightarrow> (Inl err, st2)
       | (Inr (Some conflict), st2) \<Rightarrow> (Inr (Some conflict), st2)
       | (Inr None, st2) \<Rightarrow> registerDependencies st2 pkg ver deps)"
    by (simp add: Let_def r_def st1_def)
  show ?case
    unfolding eq using m1 m2 by (cases r) (auto split: sum.splits option.splits)
qed

lemma decide_appends_decision:
  assumes "pickVersion st N = Inr (Some v)" and "decide st N = NextIteration st' c"
  shows "\<exists>more. assignments (partial st') =
           assignments (partial st) @ fst (addDecision (partial st) N (Some v)) # more"
proof -
  define ps1 where "ps1 = snd (addDecision (partial st) N (Some v))"
  define st1 where "st1 = st\<lparr>partial := ps1\<rparr>"
  have log1: "assignments ps1 = assignments (partial st) @ [fst (addDecision (partial st) N (Some v))]"
    by (simp add: ps1_def addDecision_def Let_def append_assignment_def)
  from assms obtain deps where
    deps: "GetDependencies (source st1) N (Some v) = Inr deps"
    by (auto simp: decide_def st1_def ps1_def Let_def split: prod.splits sum.splits)
  from registerDependencies_extends_log [of st1 N "Some v" deps] obtain m where
    m: "assignments (partial (snd (registerDependencies st1 N (Some v) deps))) =
          assignments (partial st1) @ m"
    by auto
  from assms deps have "partial st' = partial (snd (registerDependencies st1 N (Some v) deps))"
    by (auto simp: decide_def st1_def ps1_def Let_def partial_enqueue
        split: prod.splits sum.splits option.splits)
  with m log1 show ?thesis
    by (simp add: st1_def)
qed

text \<open>
  Claim C1. When the catalog lists the versions of a package \<open>N\<close> in ascending order,
  \<^verbatim>\<open>pickVersion\<close> returns a version \<open>v\<close> as found exactly when \<open>v\<close> is a listed version
  that the current allowed set of \<open>N\<close> contains and no listed version the allowed set
  contains is above it. The loop of \<^verbatim>\<open>Solve\<close> makes its decision for \<open>N\<close> with the
  version \<^verbatim>\<open>pickVersion\<close> returns (\<open>decide\<close>), at the current level incremented as a
  64-bit counter.
\<close>

theorem pickVersion_greatest_allowed:
  assumes "GetVersions (source st) N = Inr vs" and "sorted vs"
  shows "((pickVersion st N = Inr (Some v)) =
            (v \<in> set vs \<and> Contains (allowedSet (partial st) N) (Some v) \<and>
             (\<forall>w\<in>set vs. Contains (allowedSet (partial st) N) (Some w) \<longrightarrow> w \<le> v))) \<and>
         (\<forall>st' c. pickVersion st N = Inr (Some v) \<and> decide st N = NextIteration st' c \<longrightarrow>
            (\<exists>d more. assignments (partial st') = assignments (partial st) @ d # more \<and>
               kind d = assignmentDecision \<and> pkgName d = N \<and> version d = Some v \<and>
               decisionLevel d = wrap64 (decisionLvl (partial st) + 1)))"
proof (intro conjI allI impI)
  fix st' c
  assume a: "pickVersion st N = Inr (Some v) \<and> decide st N = NextIteration st' c"
  with decide_appends_decision [of st N v st' c] obtain more where
    "assignments (partial st') =
       assignments (partial st) @ fst (addDecision (partial st) N (Some v)) # more"
    by auto
  then show "\<exists>d more. assignments (partial st') = assignments (partial st) @ d # more \<and>
               kind d = assignmentDecision \<and> pkgName d = N \<and> version d = Some v \<and>
               decisionLevel d = wrap64 (decisionLvl (partial st) + 1)"
    by (intro exI [of _ "fst (addDecision (partial st) N (Some v))"] exI [of _ more])
       (simp add: addDecision_def Let_def newDecisionAssignment_def)
next
  show "(pickVersion st N = Inr (Some v)) =
            (v \<in> set vs \<and> Contains (allowedSet (partial st) N) (Some v) \<and>
             (\<forall>w\<in>set vs. Contains (allowedSet (partial st) N) (Some w) \<longrightarrow> w \<le> v))"
  proof
    assume pv: "pickVersion st N = Inr (Some v)"
    with assms(1) have fc: "firstContained (allowedSet (partial st) N) (rev vs) = Some v"
      by (auto simp: pickVersion_def Let_def split: if_splits)
    from firstContained_Some [OF fc] firstContained_greatest [OF _ fc] assms(2)
    show "v \<in> set vs \<and> Contains (allowedSet (partial st) N) (Some v) \<and>
          (\<forall>w\<in>set vs. Contains (allowedSet (partial st) N) (Some w) \<longrightarrow> w \<le> v)"
      by auto
  next
    assume r: "v \<in> set vs \<and> Contains (allowedSet (partial st) N) (Some v) \<and>
          (\<forall>w\<in>set vs. Contains (allowedSet (partial st) N) (Some w) \<longrightarrow> w \<le> v)"
    then have ne: "\<not> IsEmpty (allowedSet (partial st) N)"
      using Contains_not_IsEmpty by blast
    from r have "firstContained (allowedSet (partial st) N) (rev vs) \<noteq> None"
      by (auto simp: firstContained_None)
    then obtain u where fc: "firstContained (allowedSet (partial st) N) (rev vs) = Some u"
      by auto
    from firstContained_Some [OF fc] firstContained_greatest [OF _ fc] assms(2) r
    have "u = v" by (auto intro: antisym)
    with fc ne assms(1) show "pickVersion st N = Inr (Some v)"
      by (simp add: pickVersion_def Let_def)
  qed
qed

theorem pickVersion_greatest_allowed_witness:
  "GetVersions (source exampleRegistered) ''a'' = Inr [1, 2, 3] \<and> sorted [1, 2, 3 :: nat] \<and>
   Contains (allowedSet (partial exampleRegistered) ''a'') (Some 3) \<and>
   pickVersion exampleRegistered ''a'' = Inr (Some 3) \<and>
   decide exampleRegistered ''a'' = NextIteration exampleSolved None \<and>
   (\<exists>d more. assignments (partial exampleSolved) =
                assignments (partial exampleRegistered) @ d # more \<and>
              kind d = assignmentDecision \<and> pkgName d = ''a'' \<and> version d = Some 3 \<and>
              decisionLevel d = wrap64 (decisionLvl (partial exampleRegistered) + 1))"
proof -
  have g: "GetVersions (source exampleRegistered) ''a'' = Inr [1, 2, 3]"
    by (simp add: source_exampleRegistered exampleSource_def)
  have s: "sorted [1, 2, 3 :: nat]" by simp
  have c: "Contains (allowedSet (partial exampleRegistered) ''a'') (Some 3)"
    by (simp add: allowedSet_exampleRegistered Contains_Full)
  note t = pickVersion_greatest_allowed [OF g s, of 3]
  from t c have p: "pickVersion exampleRegistered ''a'' = Inr (Some 3)"
    by simp
  from t p decide_exampleRegistered
  have "\<exists>d more. assignments (partial exampleSolved) =
                assignments (partial exampleRegistered) @ d # more \<and>
              kind d = assignmentDecision \<and> pkgName d = ''a'' \<and> version d = Some 3 \<and>
              decisionLevel d = wrap64 (decisionLvl (partial exampleRegistered) + 1)"
    by blast
  with g s c p decide_exampleRegistered show ?thesis
    by blast
qed

section \<open>Classifying a term\<close>

lemma IsDisjoint_Full: "IsDisjoint FullVersionSet S = (S = [])"
proof (cases S)
  case Nil
  then show ?thesis by (simp add: IsDisjoint_def FullVersionSet_def)
next
  case (Cons b bs)
  have "overlaps (Interval boundNegativeInfinity boundPositiveInfinity) b"
    by (cases b; cases "lower b"; cases "upper b") (auto simp: overlaps_def)
  with Cons show ?thesis
    by (simp add: IsDisjoint_def FullVersionSet_def negativeInfinityBound_def
        positiveInfinityBound_def)
qed

lemma IsSubset_Full_Nil: "\<not> IsSubset FullVersionSet []"
  by (simp add: IsSubset_def FullVersionSet_def)

lemma allowedSet_no_assignments:
  "\<not> hasAssignments ps n \<Longrightarrow> allowedSet ps n = FullVersionSet"
  by (simp add: hasAssignments_def allowedSet_def Let_def)

text \<open>
  \<^verbatim>\<open>relationForTerm\<close> as \<^verbatim>\<open>evaluateIncompatibility\<close> calls it, with the current allowed set
  \<open>A\<close> of the term's package and the flag \<open>h\<close> that the package has an assignment, for a
  term whose condition converts to a version set \<open>S\<close>: a positive term is satisfied if
  \<^verbatim>\<open>A.IsSubset(S)\<close> and \<open>h\<close>, else contradicted if \<^verbatim>\<open>A.IsDisjoint(S)\<close>, else inconclusive; a
  negative term is satisfied if \<^verbatim>\<open>A.IsDisjoint(S)\<close>, else contradicted if \<^verbatim>\<open>A.IsSubset(S)\<close>
  and \<open>h\<close>, else inconclusive. The two tests are the methods of the interval sets, which
  are the inclusion and the disjointness of the sets of versions only on interval lists
  without adjacent intervals.
\<close>

lemma relationForTerm_first_match:
  assumes "(if Positive t then termAllowedSet t else termForbiddenSet t) = Some S"
  shows "relationForTerm t (Some (allowedSet ps (Name t))) (hasAssignments ps (Name t)) =
     (if Positive t then
        (if IsSubset (allowedSet ps (Name t)) S \<and> hasAssignments ps (Name t)
           then relationSatisfied
         else if IsDisjoint (allowedSet ps (Name t)) S then relationContradicted
         else relationInconclusive)
      else
        (if IsDisjoint (allowedSet ps (Name t)) S then relationSatisfied
         else if IsSubset (allowedSet ps (Name t)) S \<and> hasAssignments ps (Name t)
           then relationContradicted
         else relationInconclusive))"
proof (cases "hasAssignments ps (Name t)")
  case True
  with assms show ?thesis
    by (auto simp: relationForTerm_def)
next
  case False
  then have full: "allowedSet ps (Name t) = FullVersionSet"
    by (rule allowedSet_no_assignments)
  have "\<not> (IsSubset FullVersionSet S \<and> IsDisjoint FullVersionSet S)"
    using IsDisjoint_Full [of S] IsSubset_Full_Nil by auto
  with assms False full show ?thesis
    by (auto simp: relationForTerm_def)
qed
section \<open>The partial solution\<close>

lemma stacksOfLog_snoc:
  "stacksOfLog (as @ [a]) =
     (stacksOfLog as)(pkgName a \<mapsto>
        (case stacksOfLog as (pkgName a) of None \<Rightarrow> [] | Some s \<Rightarrow> s) @ [a])"
  by (rule ext) (auto simp: stacksOfLog_def)

lemma append_assignment_stacks:
  "perPackage ps = stacksOfLog (assignments ps) \<Longrightarrow>
   perPackage (append_assignment ps a) = stacksOfLog (assignments (append_assignment ps a))"
  by (simp add: append_assignment_def stacksOfLog_snoc stackOf_def)

lemma consistent_append:
  assumes "consistent ps"
  shows "consistent (append_assignment ps a)"
proof -
  from assms have pp: "perPackage ps = stacksOfLog (assignments ps)"
    by (simp add: consistent_def)
  have "perPackage (append_assignment ps a) = stacksOfLog (assignments (append_assignment ps a))"
    by (rule append_assignment_stacks [OF pp])
  moreover have "assignments (append_assignment ps a) \<noteq> []"
    by (simp add: append_assignment_def)
  moreover have "hd (assignments (append_assignment ps a)) = hd (assignments ps)"
    using assms by (simp add: consistent_def append_assignment_def)
  moreover have "root (append_assignment ps a) = root ps"
    by (simp add: append_assignment_def)
  ultimately show ?thesis
    using assms by (simp add: consistent_def)
qed

lemma consistent_seedRoot: "consistent (snd (seedRoot (newPartialSolution r) r ver))"
  by (simp add: consistent_def seedRoot_def Let_def append_assignment_def newPartialSolution_def
      newDecisionAssignment_def stackOf_def stacksOfLog_def fun_eq_iff)

lemma consistent_level: "consistent (ps\<lparr>decisionLvl := l\<rparr>) = consistent ps"
  by (simp add: consistent_def)

lemma consistent_addDecision:
  assumes "consistent ps"
  shows "consistent (snd (addDecision ps name ver))"
  using assms by (simp add: addDecision_def Let_def consistent_append consistent_level)

lemma decisionLvl_append_assignment:
  "decisionLvl (append_assignment ps a) = decisionLvl ps"
  by (simp add: append_assignment_def)

text \<open>
  \<^verbatim>\<open>addDerivation\<close> leaves the partial solution as it is or appends one or two assignments
  of the current level.
\<close>

lemma addDerivation_shape:
  "snd (addDerivation ps t c) = ps \<or>
   (\<exists>a. decisionLevel a = decisionLvl ps \<and> snd (addDerivation ps t c) = append_assignment ps a) \<or>
   (\<exists>a b. decisionLevel a = decisionLvl ps \<and> decisionLevel b = decisionLvl ps \<and>
      snd (addDerivation ps t c) = append_assignment (append_assignment ps a) b)"
proof (cases "applyTermToAllowed (Some (allowedSet ps (Name t))) t")
  case (Inl e)
  then show ?thesis by (simp add: addDerivation_def Let_def)
next
  case (Inr newAllowed)
  define assign0 :: "'a assignment" where
    "assign0 = \<lparr>pkgName = Name t, pkgTerm = t, kind = assignmentDerivation, allowed = None,
       forbidden = None, version = None, cause = c, decisionLevel = decisionLvl ps,
       index = nextIndex ps\<rparr>"
  have l0: "decisionLevel (assign0\<lparr>allowed := x\<rparr>) = decisionLvl ps"
           "decisionLevel (assign0\<lparr>forbidden := y\<rparr>) = decisionLvl ps" for x y
    by (simp_all add: assign0_def)
  show ?thesis
  proof (cases "IsEmpty newAllowed")
    case True
    with Inr show ?thesis by (simp add: addDerivation_def Let_def)
  next
    case ne: False
    show ?thesis
    proof (cases "Positive t")
      case True
      with Inr ne have "snd (addDerivation ps t c) =
          append_assignment ps (assign0\<lparr>allowed := Some newAllowed\<rparr>)"
        by (simp add: addDerivation_def Let_def assign0_def)
      with l0(1) show ?thesis by blast
    next
      case neg: False
      show ?thesis
      proof (cases "termForbiddenSet t")
        case None
        with Inr ne neg show ?thesis by (simp add: addDerivation_def Let_def)
      next
        case (Some f)
        show ?thesis
        proof (cases "setsEqual (allowedSet ps (Name t)) newAllowed")
          case True
          with Inr ne neg Some have "snd (addDerivation ps t c) =
              append_assignment ps (assign0\<lparr>forbidden := Some f\<rparr>)"
            by (simp add: addDerivation_def Let_def assign0_def)
          with l0(2) show ?thesis by blast
        next
          case False
          define ps1 where "ps1 = append_assignment ps (assign0\<lparr>forbidden := Some f\<rparr>)"
          define tightening :: "'a assignment" where
            "tightening = \<lparr>pkgName = Name t, pkgTerm = termFromAllowedSet (Name t) newAllowed,
               kind = assignmentDerivation, allowed = Some newAllowed, forbidden = None,
               version = None, cause = c, decisionLevel = decisionLvl ps1,
               index = nextIndex ps1\<rparr>"
          from False Inr ne neg Some have "snd (addDerivation ps t c) =
              append_assignment ps1 tightening"
            by (simp add: addDerivation_def Let_def assign0_def ps1_def tightening_def)
          moreover have "decisionLevel tightening = decisionLvl ps"
            by (simp add: tightening_def ps1_def decisionLvl_append_assignment)
          ultimately show ?thesis
            unfolding ps1_def using l0(2) by blast
        qed
      qed
    qed
  qed
qed

lemma consistent_addDerivation:
  assumes "consistent ps"
  shows "consistent (snd (addDerivation ps t c))"
proof -
  from addDerivation_shape [of ps t c] show ?thesis
  proof (elim disjE exE conjE)
    assume "snd (addDerivation ps t c) = ps"
    with assms show ?thesis by simp
  next
    fix a
    assume "snd (addDerivation ps t c) = append_assignment ps a"
    with consistent_append [OF assms, of a] show ?thesis by simp
  next
    fix a b
    assume "snd (addDerivation ps t c) = append_assignment (append_assignment ps a) b"
    with consistent_append [OF consistent_append [OF assms, of a], of b] show ?thesis by simp
  qed
qed

lemma stacksOfLog_butlast:
  assumes "as \<noteq> []"
  shows "stacksOfLog (butlast as) =
     (let stack = (case stacksOfLog as (pkgName (last as)) of None \<Rightarrow> [] | Some s \<Rightarrow> s) in
      if length stack > 0 then
        (if length (butlast stack) = 0 then (stacksOfLog as)(pkgName (last as) := None)
         else (stacksOfLog as)(pkgName (last as) \<mapsto> butlast stack))
      else stacksOfLog as)"
proof -
  from assms obtain bs b where as: "as = bs @ [b]"
    by (metis append_butlast_last_id)
  show ?thesis
    unfolding as by (rule ext) (auto simp: stacksOfLog_def Let_def butlast_append)
qed

lemma popLast_stacks:
  assumes "perPackage ps = stacksOfLog (assignments ps)" and "assignments ps \<noteq> []"
  shows "perPackage (popLast ps) = stacksOfLog (assignments (popLast ps))"
  using stacksOfLog_butlast [OF assms(2)] assms(1)
  by (simp add: popLast_def Let_def stackOf_def)

lemma backtrackLoop_filter:
  assumes "perPackage ps = stacksOfLog (assignments ps)"
    and "sorted (map decisionLevel (assignments ps))"
  shows "assignments (backtrackLoop level ps) =
           filter (\<lambda>a. decisionLevel a \<le> level) (assignments ps) \<and>
         perPackage (backtrackLoop level ps) = stacksOfLog (assignments (backtrackLoop level ps)) \<and>
         decisionLvl (backtrackLoop level ps) = decisionLvl ps \<and>
         nextIndex (backtrackLoop level ps) = nextIndex ps \<and>
         root (backtrackLoop level ps) = root ps"
  using assms
proof (induction level ps rule: backtrackLoop.induct)
  case (1 level ps)
  show ?case
  proof (cases "assignments ps = []")
    case True
    with "1.prems" show ?thesis by simp
  next
    case ne: False
    then obtain bs b where as: "assignments ps = bs @ [b]"
      by (metis append_butlast_last_id)
    show ?thesis
    proof (cases "decisionLevel b \<le> level")
      case True
      from "1.prems"(2) as have "\<forall>a\<in>set bs. decisionLevel a \<le> decisionLevel b"
        by (auto simp: sorted_append)
      with True have "filter (\<lambda>a. decisionLevel a \<le> level) (assignments ps) = assignments ps"
        unfolding as by (auto simp: filter_id_conv)
      with True as "1.prems"(1) show ?thesis by simp
    next
      case False
      have pl: "assignments (popLast ps) = bs"
        using as by (simp add: popLast_def Let_def)
      have pp: "perPackage (popLast ps) = stacksOfLog (assignments (popLast ps))"
        by (rule popLast_stacks [OF "1.prems"(1) ne])
      have srt: "sorted (map decisionLevel (assignments (popLast ps)))"
        using "1.prems"(2) as pl by (simp add: sorted_append)
      have rest: "decisionLvl (popLast ps) = decisionLvl ps"
                 "nextIndex (popLast ps) = nextIndex ps" "root (popLast ps) = root ps"
        by (simp_all add: popLast_def Let_def)
      have step: "backtrackLoop level ps = backtrackLoop level (popLast ps)"
        using False as by simp
      from "1.IH" [OF _ _ pp srt] False as ne
      have ih: "assignments (backtrackLoop level (popLast ps)) =
           filter (\<lambda>a. decisionLevel a \<le> level) (assignments (popLast ps)) \<and>
         perPackage (backtrackLoop level (popLast ps)) =
           stacksOfLog (assignments (backtrackLoop level (popLast ps))) \<and>
         decisionLvl (backtrackLoop level (popLast ps)) = decisionLvl (popLast ps) \<and>
         nextIndex (backtrackLoop level (popLast ps)) = nextIndex (popLast ps) \<and>
         root (backtrackLoop level (popLast ps)) = root (popLast ps)"
        by simp
      show ?thesis
        unfolding step using ih pl rest False as by simp
    qed
  qed
qed

text \<open>
  Whatever the levels in the log: \<^verbatim>\<open>backtrack\<close> removes a tail of the log whose levels are
  all above the target.
\<close>

lemma backtrackLoop_prefix:
  assumes "perPackage ps = stacksOfLog (assignments ps)"
  shows "(\<exists>popped. assignments ps = assignments (backtrackLoop level ps) @ popped \<and>
            (\<forall>p\<in>set popped. level < decisionLevel p)) \<and>
         perPackage (backtrackLoop level ps) = stacksOfLog (assignments (backtrackLoop level ps)) \<and>
         root (backtrackLoop level ps) = root ps"
  using assms
proof (induction level ps rule: backtrackLoop.induct)
  case (1 level ps)
  show ?case
  proof (cases "assignments ps = []")
    case True
    with "1.prems" show ?thesis by simp
  next
    case ne: False
    then obtain bs b where as: "assignments ps = bs @ [b]"
      by (metis append_butlast_last_id)
    show ?thesis
    proof (cases "decisionLevel b \<le> level")
      case True
      with as "1.prems" show ?thesis by simp
    next
      case False
      have pl: "assignments (popLast ps) = bs"
        using as by (simp add: popLast_def Let_def)
      have pp: "perPackage (popLast ps) = stacksOfLog (assignments (popLast ps))"
        by (rule popLast_stacks [OF "1.prems" ne])
      have rt: "root (popLast ps) = root ps"
        by (simp add: popLast_def Let_def)
      have step: "backtrackLoop level ps = backtrackLoop level (popLast ps)"
        using False as by simp
      from "1.IH" [OF _ _ pp] False as ne
      have ih: "(\<exists>popped. assignments (popLast ps) =
                   assignments (backtrackLoop level (popLast ps)) @ popped \<and>
                   (\<forall>p\<in>set popped. level < decisionLevel p)) \<and>
         perPackage (backtrackLoop level (popLast ps)) =
           stacksOfLog (assignments (backtrackLoop level (popLast ps))) \<and>
         root (backtrackLoop level (popLast ps)) = root (popLast ps)"
        by simp
      then obtain popped where
          po: "bs = assignments (backtrackLoop level (popLast ps)) @ popped"
        and pa: "\<forall>p\<in>set popped. level < decisionLevel p"
        unfolding pl by blast
      from po have "assignments ps =
          assignments (backtrackLoop level (popLast ps)) @ (popped @ [b])"
        unfolding as by simp
      moreover from pa False have "\<forall>p\<in>set (popped @ [b]). level < decisionLevel p"
        by auto
      ultimately have "\<exists>popped. assignments ps =
          assignments (backtrackLoop level (popLast ps)) @ popped \<and>
          (\<forall>p\<in>set popped. level < decisionLevel p)"
        by blast
      with ih rt show ?thesis
        unfolding step by simp
    qed
  qed
qed

lemma backtrack_prefix:
  assumes "perPackage ps = stacksOfLog (assignments ps)"
  shows "\<exists>popped. assignments ps = assignments (backtrack ps level) @ popped \<and>
            (\<forall>p\<in>set popped. 0 < decisionLevel p)"
proof -
  define lvl where "lvl = (if level < 0 then 0 else level)"
  have l0: "0 \<le> lvl" by (simp add: lvl_def)
  from backtrackLoop_prefix [OF assms, of lvl] obtain popped where
      po: "assignments ps = assignments (backtrackLoop lvl ps) @ popped"
    and pa: "\<forall>p\<in>set popped. lvl < decisionLevel p"
    by blast
  have eq: "assignments (backtrack ps level) = assignments (backtrackLoop lvl ps)"
    by (simp add: backtrack_def Let_def lvl_def)
  from pa l0 have "\<forall>p\<in>set popped. 0 < decisionLevel p" by auto
  with po show ?thesis
    unfolding eq by blast
qed

lemma consistent_backtrack:
  assumes "consistent ps"
  shows "consistent (backtrack ps level)"
proof -
  define lvl where "lvl = (if level < 0 then 0 else level)"
  from assms have pp: "perPackage ps = stacksOfLog (assignments ps)"
    and ne: "assignments ps \<noteq> []"
    and h0: "decisionLevel (hd (assignments ps)) = 0"
    by (simp_all add: consistent_def)
  note bl = backtrackLoop_prefix [OF pp, of lvl]
  from backtrack_prefix [OF pp, of level] obtain popped where
      po: "assignments ps = assignments (backtrack ps level) @ popped"
    and pa: "\<forall>p\<in>set popped. 0 < decisionLevel p"
    by blast
  have kept: "assignments (backtrack ps level) \<noteq> []"
  proof
    assume "assignments (backtrack ps level) = []"
    with po ne have "hd (assignments ps) \<in> set popped" by simp
    with pa h0 show False by auto
  qed
  with po have hd_eq: "hd (assignments (backtrack ps level)) = hd (assignments ps)"
    by (metis hd_append2)
  have eq: "backtrack ps level = (backtrackLoop lvl ps)\<lparr>decisionLvl := lvl\<rparr>"
    by (simp add: backtrack_def Let_def lvl_def)
  have flds: "perPackage (backtrack ps level) = stacksOfLog (assignments (backtrack ps level))"
             "root (backtrack ps level) = root ps"
    unfolding eq using bl by simp_all
  from kept hd_eq flds assms show ?thesis
    by (simp add: consistent_def)
qed

lemma reachable_consistent: "reachable ps \<Longrightarrow> consistent ps"
  by (induction rule: reachable.induct)
     (simp_all add: consistent_seedRoot consistent_addDecision consistent_addDerivation
        consistent_backtrack)

lemma solverReachable_reachable: "solverReachable ps \<Longrightarrow> reachable ps"
  by (induction rule: solverReachable.induct) (auto intro: reachable.intros)

section \<open>The levels of the log\<close>

lemma levelsOrdered_length:
  assumes "levelsOrdered ps"
  shows "decisionLvl ps + 1 \<le> int (length (assignments ps))"
proof -
  have "card (set (map decisionLevel (assignments ps))) \<le> length (map decisionLevel (assignments ps))"
    by (rule card_length)
  with assms have "card {0 .. decisionLvl ps} \<le> length (assignments ps)"
    by (simp add: levelsOrdered_def)
  then show ?thesis by simp
qed

lemma levelsOrdered_nonneg:
  assumes "levelsOrdered ps" and "assignments ps \<noteq> []"
  shows "0 \<le> decisionLvl ps"
proof -
  from assms(2) have "set (map decisionLevel (assignments ps)) \<noteq> {}" by simp
  with assms(1) have "{0 .. decisionLvl ps} \<noteq> {}" by (simp add: levelsOrdered_def)
  then show ?thesis by simp
qed

lemma levelsOrdered_append:
  assumes "levelsOrdered ps" and "assignments ps \<noteq> []" and "decisionLevel a = decisionLvl ps"
  shows "levelsOrdered (append_assignment ps a)"
proof -
  from levelsOrdered_nonneg [OF assms(1,2)] have d0: "0 \<le> decisionLvl ps" .
  from assms(1) have srt: "sorted (map decisionLevel (assignments ps))"
    and st: "set (map decisionLevel (assignments ps)) = {0 .. decisionLvl ps}"
    and mx: "decisionLvl ps \<le> maxInt"
    by (simp_all add: levelsOrdered_def)
  from st have le: "\<forall>x\<in>set (map decisionLevel (assignments ps)). x \<le> decisionLvl ps"
    by simp
  have "sorted (map decisionLevel (assignments ps) @ [decisionLevel a])"
    using srt le assms(3) by (simp add: sorted_append)
  moreover have "set (map decisionLevel (assignments ps) @ [decisionLevel a]) = {0 .. decisionLvl ps}"
    using st d0 assms(3) by auto
  ultimately show ?thesis
    using mx by (simp add: levelsOrdered_def append_assignment_def)
qed

lemma wrapped_extend:
  assumes "wrapped ps" and "assignments ps' = assignments ps @ rest"
  shows "wrapped ps'"
proof -
  from assms(1) obtain i where i: "i < length (assignments ps)" "2 ^ 63 \<le> int i"
      "decisionLevel (assignments ps ! i) < 0"
    by (auto simp: wrapped_def)
  then have "i < length (assignments ps')" "decisionLevel (assignments ps' ! i) < 0"
    by (simp_all add: assms(2) nth_append)
  with i(2) show ?thesis
    unfolding wrapped_def by blast
qed

lemma wrapped_append: "wrapped ps \<Longrightarrow> wrapped (append_assignment ps a)"
  by (rule wrapped_extend [where rest = "[a]"]) (simp_all add: append_assignment_def)

lemma levels_addDecision:
  assumes "consistent ps" and "levelsOrdered ps \<or> wrapped ps"
  shows "levelsOrdered (snd (addDecision ps name ver)) \<or> wrapped (snd (addDecision ps name ver))"
proof -
  define d where "d = wrap64 (decisionLvl ps + 1)"
  define a where "a = newDecisionAssignment (ps\<lparr>decisionLvl := d\<rparr>) name ver d"
  have res: "snd (addDecision ps name ver) = append_assignment (ps\<lparr>decisionLvl := d\<rparr>) a"
    by (simp add: addDecision_def Let_def d_def a_def)
  have la: "decisionLevel a = d"
    by (simp add: a_def newDecisionAssignment_def)
  have log: "assignments (snd (addDecision ps name ver)) = assignments ps @ [a]"
    by (simp add: res append_assignment_def)
  from assms(1) have ne: "assignments ps \<noteq> []"
    by (simp add: consistent_def)
  from assms(2) show ?thesis
  proof
    assume lo: "levelsOrdered ps"
    from levelsOrdered_nonneg [OF lo ne] have d0: "0 \<le> decisionLvl ps" .
    from lo have srt: "sorted (map decisionLevel (assignments ps))"
      and st: "set (map decisionLevel (assignments ps)) = {0 .. decisionLvl ps}"
      and mx: "decisionLvl ps \<le> maxInt"
      by (simp_all add: levelsOrdered_def)
    show ?thesis
    proof (cases "decisionLvl ps < maxInt")
      case True
      with d0 have dd: "d = decisionLvl ps + 1"
        unfolding d_def by (intro wrap64_id) (simp_all add: minInt_def)
      from st have le: "\<forall>x\<in>set (map decisionLevel (assignments ps)). x \<le> d"
        unfolding dd by simp
      have "sorted (map decisionLevel (assignments ps @ [a]))"
        using srt le la by (simp add: sorted_append)
      moreover have "set (map decisionLevel (assignments ps @ [a])) = {0 .. d}"
        using st d0 la unfolding dd by auto
      moreover have "d \<le> maxInt"
        using True unfolding dd by simp
      ultimately have "levelsOrdered (snd (addDecision ps name ver))"
        unfolding levelsOrdered_def log by (simp add: res append_assignment_def)
      then show ?thesis ..
    next
      case False
      with mx have eq: "decisionLvl ps = maxInt" by simp
      then have dd: "d = minInt"
        by (simp add: d_def wrap64_maxInt)
      from levelsOrdered_length [OF lo] eq
      have len: "2 ^ 63 \<le> int (length (assignments ps))"
        by (simp add: maxInt_def)
      have "length (assignments ps) < length (assignments ps @ [a])" by simp
      moreover have "decisionLevel ((assignments ps @ [a]) ! length (assignments ps)) < 0"
        using la dd by (simp add: minInt_def)
      ultimately have "wrapped (snd (addDecision ps name ver))"
        unfolding wrapped_def log using len by blast
      then show ?thesis ..
    qed
  next
    assume "wrapped ps"
    from wrapped_extend [OF this log] show ?thesis ..
  qed
qed

lemma levels_addDerivation:
  assumes "consistent ps" and "levelsOrdered ps \<or> wrapped ps"
  shows "levelsOrdered (snd (addDerivation ps t c)) \<or> wrapped (snd (addDerivation ps t c))"
proof -
  from assms(1) have ne: "assignments ps \<noteq> []"
    by (simp add: consistent_def)
  have one: "levelsOrdered (append_assignment q a) \<or> wrapped (append_assignment q a)"
    if "levelsOrdered q \<or> wrapped q" and "assignments q \<noteq> []"
      and "decisionLevel a = decisionLvl q" for q :: "'a partialSolution" and a
    using that levelsOrdered_append [of q a] wrapped_append [of q a] by blast
  have ne1: "assignments (append_assignment ps a) \<noteq> []" for a
    by (simp add: append_assignment_def)
  from addDerivation_shape [of ps t c] show ?thesis
  proof (elim disjE exE conjE)
    assume "snd (addDerivation ps t c) = ps"
    with assms(2) show ?thesis by simp
  next
    fix a
    assume "decisionLevel a = decisionLvl ps"
      and "snd (addDerivation ps t c) = append_assignment ps a"
    with one [OF assms(2) ne] show ?thesis by simp
  next
    fix a b
    assume a: "decisionLevel a = decisionLvl ps" and b: "decisionLevel b = decisionLvl ps"
      and r: "snd (addDerivation ps t c) = append_assignment (append_assignment ps a) b"
    from one [OF assms(2) ne a] have "levelsOrdered (append_assignment ps a) \<or>
        wrapped (append_assignment ps a)" .
    from one [OF this ne1] b show ?thesis
      unfolding r by (simp add: decisionLvl_append_assignment)
  qed
qed

lemma stackOf_subset_log:
  assumes "perPackage ps = stacksOfLog (assignments ps)"
  shows "set (stackOf ps n) \<subseteq> set (assignments ps)"
  by (auto simp: stackOf_def assms stacksOfLog_def split: if_splits)

lemma levels_backtrack:
  assumes "consistent ps" and "levelsOrdered ps \<or> wrapped ps"
    and "satisfier \<in> set (stackOf ps n)" and "0 \<le> L" and "L < decisionLevel satisfier"
  shows "levelsOrdered (backtrack ps L) \<or> wrapped (backtrack ps L)"
proof -
  from assms(1) have pp: "perPackage ps = stacksOfLog (assignments ps)"
    by (simp add: consistent_def)
  from assms(2) show ?thesis
  proof
    assume lo: "levelsOrdered ps"
    then have srt: "sorted (map decisionLevel (assignments ps))"
      and st: "set (map decisionLevel (assignments ps)) = {0 .. decisionLvl ps}"
      and mx: "decisionLvl ps \<le> maxInt"
      by (simp_all add: levelsOrdered_def)
    from assms(3) stackOf_subset_log [OF pp, of n]
    have "decisionLevel satisfier \<in> set (map decisionLevel (assignments ps))" by auto
    with st assms(5) have Ld: "L \<le> decisionLvl ps" by simp
    from backtrackLoop_filter [OF pp srt, of L] assms(4)
    have as: "assignments (backtrack ps L) =
        filter (\<lambda>a. decisionLevel a \<le> L) (assignments ps)"
      and lv: "decisionLvl (backtrack ps L) = L"
      by (simp_all add: backtrack_def Let_def)
    have "sorted (map decisionLevel (filter (\<lambda>a. decisionLevel a \<le> L) (assignments ps)))"
      using srt by (simp add: sorted_filter)
    moreover have "set (map decisionLevel (filter (\<lambda>a. decisionLevel a \<le> L) (assignments ps))) =
        {x \<in> set (map decisionLevel (assignments ps)). x \<le> L}"
      by auto
    then have "set (map decisionLevel (filter (\<lambda>a. decisionLevel a \<le> L) (assignments ps))) =
        {0 .. L}"
      unfolding st using Ld by auto
    moreover have "L \<le> maxInt" using Ld mx by simp
    ultimately have "levelsOrdered (backtrack ps L)"
      unfolding levelsOrdered_def as lv by simp
    then show ?thesis ..
  next
    assume "wrapped ps"
    then obtain i where i: "i < length (assignments ps)" "2 ^ 63 \<le> int i"
        "decisionLevel (assignments ps ! i) < 0"
      by (auto simp: wrapped_def)
    from backtrack_prefix [OF pp, of L] obtain popped where
        po: "assignments ps = assignments (backtrack ps L) @ popped"
      and pa: "\<forall>p\<in>set popped. 0 < decisionLevel p"
      by blast
    have il: "i < length (assignments (backtrack ps L))"
    proof (rule ccontr)
      assume "\<not> i < length (assignments (backtrack ps L))"
      with i(1) po have "assignments ps ! i \<in> set popped"
        by (metis add_diff_inverse_nat length_append nat_add_left_cancel_less nth_append nth_mem)
      with pa i(3) show False by auto
    qed
    with po have "assignments (backtrack ps L) ! i = assignments ps ! i"
      by (metis nth_append)
    with il i(2,3) have "wrapped (backtrack ps L)"
      unfolding wrapped_def by auto
    then show ?thesis ..
  qed
qed

lemma levelsOrdered_seedRoot: "levelsOrdered (snd (seedRoot (newPartialSolution r) r ver))"
  by (simp add: levelsOrdered_def seedRoot_def Let_def append_assignment_def
      newPartialSolution_def newDecisionAssignment_def maxInt_def)

lemma solverReachable_levels:
  "solverReachable ps \<Longrightarrow> levelsOrdered ps \<or> wrapped ps"
proof (induction rule: solverReachable.induct)
  case (seeded r ver)
  show ?case by (simp add: levelsOrdered_seedRoot)
next
  case (decided ps name ver)
  from levels_addDecision [OF reachable_consistent [OF solverReachable_reachable [OF decided.hyps]]
      decided.IH]
  show ?case .
next
  case (derived ps t c)
  from levels_addDerivation [OF reachable_consistent [OF solverReachable_reachable [OF derived.hyps]]
      derived.IH]
  show ?case .
next
  case (backjumped ps satisfier name prevLevel)
  from levels_backtrack [OF reachable_consistent [OF solverReachable_reachable [OF backjumped.hyps(1)]]
      backjumped.IH backjumped.hyps(2) backjumped.hyps(4) backjumped.hyps(5)]
  show ?case .
qed

text \<open>
  A log that a Go slice can hold has fewer than \<open>2\<^sup>6\<^sup>3\<close> assignments; no increment has
  wrapped around in it, and its levels never decrease.
\<close>

lemma solverReachable_sorted:
  assumes "solverReachable ps" and "int (length (assignments ps)) \<le> maxInt"
  shows "sorted (map decisionLevel (assignments ps))"
proof -
  have "\<not> wrapped ps"
  proof
    assume "wrapped ps"
    then obtain i where "i < length (assignments ps)" "2 ^ 63 \<le> int i"
      by (auto simp: wrapped_def)
    with assms(2) show False by (simp add: maxInt_def)
  qed
  with solverReachable_levels [OF assms(1)] show ?thesis
    by (simp add: levelsOrdered_def)
qed





lemma buildLoop_names:
  "distinct (map nvName (buildLoop seen as)) \<and> set (map nvName (buildLoop seen as)) \<inter> seen = {}"
proof (induction as arbitrary: seen)
  case Nil
  then show ?case by simp
next
  case (Cons a as)
  from Cons [of seen] Cons [of "insert (pkgName a) seen"] show ?case by auto
qed

lemma buildLoop_subseq:
  "subseq (buildLoop seen as)
     (map (\<lambda>a. NameVersion (pkgName a) (version a)) (filter isDecision as))"
  by (induction as arbitrary: seen) (auto simp: isDecision_def)

lemma buildLoop_find:
  "find (\<lambda>p. nvName p = n) (buildLoop seen as) =
     (if n \<in> seen then None
      else map_option (\<lambda>a. NameVersion (pkgName a) (version a))
             (find (\<lambda>a. isDecision a \<and> pkgName a = n) as))"
proof (induction as arbitrary: seen)
  case Nil
  then show ?case by simp
next
  case (Cons a as)
  from Cons [of seen] Cons [of "insert (pkgName a) seen"] show ?case
    by (auto simp: isDecision_def)
qed

lemma isComplete_exampleSolved: "isComplete (partial exampleSolved)"
proof -
  from reachable_consistent [OF reachable_exampleSolved]
  have pp: "perPackage (partial exampleSolved) = stacksOfLog (assignments (partial exampleSolved))"
    by (simp add: consistent_def)
  show ?thesis
    unfolding isComplete_def stackOf_def pp
    by (auto simp: stacksOfLog_def assignments_exampleSolved root_exampleSolved dom_def
        split: if_splits)
qed

text \<open>
  Claim C5, as amended. When \<^verbatim>\<open>Solve\<close> returns a solution, it is \<^verbatim>\<open>buildSolution\<close> of its
  partial solution, a partial solution the solver can reach. The list has pairwise
  distinct names, keeps the order in which the decisions were made, holds for every
  package with a decision the pair of its first decision and for every other package
  nothing, and starts with the pair of the root: the root is part of the returned list.
\<close>

theorem buildSolution_first_decisions:
  assumes "reachable (partial st)" and "afterPropagation st = Solved sol"
  shows "sol = buildSolution (partial st) \<and>
         distinct (map nvName sol) \<and>
         subseq sol
           (map (\<lambda>a. NameVersion (pkgName a) (version a))
              (filter isDecision (assignments (partial st)))) \<and>
         (\<forall>n. find (\<lambda>p. nvName p = n) sol =
            map_option (\<lambda>a. NameVersion (pkgName a) (version a))
              (find (\<lambda>a. isDecision a \<and> pkgName a = n) (assignments (partial st)))) \<and>
         sol \<noteq> [] \<and>
         hd sol = NameVersion (root (partial st)) (version (hd (assignments (partial st))))"
proof -
  define ps where "ps = partial st"
  have dec: "decide st n \<noteq> Solved sol" for n
    by (auto simp: decide_def Let_def split: sum.splits option.splits prod.splits)
  from assms(2) dec have sol: "sol = buildSolution ps"
    by (auto simp: afterPropagation_def ps_def split: if_splits option.splits)
  from reachable_consistent [OF assms(1)] have
      ne: "assignments ps \<noteq> []"
    and hk: "kind (hd (assignments ps)) = assignmentDecision"
    and hr: "pkgName (hd (assignments ps)) = root ps"
    by (simp_all add: consistent_def ps_def)
  from ne hk hr have "buildSolution ps \<noteq> [] \<and>
         hd (buildSolution ps) = NameVersion (root ps) (version (hd (assignments ps)))"
    by (cases "assignments ps") (auto simp: buildSolution_def)
  with buildLoop_names [of "{}" "assignments ps"] buildLoop_subseq [of "{}" "assignments ps"]
    buildLoop_find [of _ "{}" "assignments ps"] sol
  show ?thesis by (simp add: buildSolution_def ps_def)
qed

theorem buildSolution_first_decisions_witness:
  "reachable (partial exampleSolved) \<and>
   afterPropagation exampleSolved = Solved (buildSolution (partial exampleSolved)) \<and>
   hd (buildSolution (partial exampleSolved)) = NameVersion ''$$root'' (Some 1) \<and>
   find (\<lambda>p. nvName p = ''a'') (buildSolution (partial exampleSolved)) =
     Some (NameVersion ''a'' (Some 3))"
proof -
  have ap: "afterPropagation exampleSolved = Solved (buildSolution (partial exampleSolved))"
    by (simp add: afterPropagation_def isComplete_exampleSolved)
  from buildSolution_first_decisions [OF reachable_exampleSolved ap] reachable_exampleSolved ap
  show ?thesis
    by (simp add: assignments_exampleSolved root_exampleSolved isDecision_def)
qed

text \<open>
  Claim C5 as stated fails: on the catalog in which the root at version 1 depends on \<open>a\<close>
  and \<open>a\<close> has the versions 1, 2 and 3, the solve that decides \<open>a\<close> at 3 returns the
  root's pair as well.
\<close>

theorem buildSolution_holds_root_counterexample:
  "afterPropagation exampleSolved =
     Solved [NameVersion ''$$root'' (Some 1), NameVersion ''a'' (Some 3)]"
  by (simp add: afterPropagation_def isComplete_exampleSolved buildSolution_def
      assignments_exampleSolved)

text \<open>
  The restriction to the solver's calls of \<^verbatim>\<open>backtrack\<close> matters. After the root, a
  decision, \<^verbatim>\<open>backtrack\<close> to \<open>2\<^sup>6\<^sup>3 - 1\<close> and one more decision, the log has the levels 0, 1
  and \<open>- 2\<^sup>6\<^sup>3\<close>, and \<^verbatim>\<open>backtrack(0)\<close> removes none of them, the assignment of level 1
  included. The solver cannot reach this partial solution.
\<close>

lemma backtrackLoop_stop:
  "assignments ps \<noteq> [] \<Longrightarrow> decisionLevel (last (assignments ps)) \<le> level \<Longrightarrow>
     backtrackLoop level ps = ps"
  by simp

lemma levels_first_decision:
  "map decisionLevel (assignments (snd (addDecision exampleSeeded ''a'' (Some 1)))) = [0, 1]"
  by (simp add: addDecision_def Let_def append_assignment_def newDecisionAssignment_def
      assignments_exampleSeeded counters_exampleSeeded)

lemma backtrack_first_decision:
  "backtrack (snd (addDecision exampleSeeded ''a'' (Some 1))) maxInt =
     (snd (addDecision exampleSeeded ''a'' (Some 1)))\<lparr>decisionLvl := maxInt\<rparr>"
proof -
  define ps where "ps = snd (addDecision exampleSeeded ''a'' (Some 1))"
  have l: "map decisionLevel (assignments ps) = [0, 1]"
    unfolding ps_def by (rule levels_first_decision)
  then have ne: "assignments ps \<noteq> []" by auto
  from ne have "decisionLevel (last (assignments ps)) = last (map decisionLevel (assignments ps))"
    by (simp add: last_map)
  then have "decisionLevel (last (assignments ps)) \<le> maxInt"
    unfolding l by (simp add: maxInt_def)
  from backtrackLoop_stop [OF ne this] have st: "backtrackLoop maxInt ps = ps" .
  have m: "(if maxInt < 0 then 0 else maxInt) = maxInt"
    by (simp add: maxInt_def)
  show ?thesis
    unfolding ps_def [symmetric] backtrack_def Let_def m st by (rule refl)
qed

lemma levels_exampleOverflow:
  "map decisionLevel (assignments exampleOverflow) = [0, 1, minInt]"
  unfolding exampleOverflow_def backtrack_first_decision
  using levels_first_decision
  by (simp add: addDecision_def Let_def append_assignment_def newDecisionAssignment_def
      wrap64_maxInt)

lemma reachable_exampleOverflow: "reachable exampleOverflow"
  unfolding exampleOverflow_def exampleSeeded_def
  by (intro reachable.decided reachable.backtracked reachable.seeded)

lemma backtrack_exampleOverflow:
  "map decisionLevel (assignments (backtrack exampleOverflow 0)) = [0, 1, minInt]"
proof -
  note l = levels_exampleOverflow
  then have ne: "assignments exampleOverflow \<noteq> []" by auto
  from ne have "decisionLevel (last (assignments exampleOverflow)) =
      last (map decisionLevel (assignments exampleOverflow))"
    by (simp add: last_map)
  then have "decisionLevel (last (assignments exampleOverflow)) \<le> 0"
    unfolding l by (simp add: minInt_def)
  from backtrackLoop_stop [OF ne this]
  have st: "backtrackLoop 0 exampleOverflow = exampleOverflow" .
  have m: "(if (0::int) < 0 then 0 else 0) = 0"
    by simp
  have "backtrack exampleOverflow 0 = exampleOverflow\<lparr>decisionLvl := 0\<rparr>"
    unfolding backtrack_def Let_def m st by (rule refl)
  with l show ?thesis
    by simp
qed

lemma not_solverReachable_exampleOverflow: "\<not> solverReachable exampleOverflow"
proof
  assume "solverReachable exampleOverflow"
  moreover have "int (length (assignments exampleOverflow)) \<le> maxInt"
    using levels_exampleOverflow [THEN arg_cong, of length] by (simp add: maxInt_def)
  ultimately have "sorted (map decisionLevel (assignments exampleOverflow))"
    by (rule solverReachable_sorted)
  then show False
    unfolding levels_exampleOverflow by (simp add: minInt_def)
qed


section \<open>Incompatibilities\<close>

lemma dedupTerms_names:
  "distinct (map Name (dedupTerms seen ts)) \<and> set (map Name (dedupTerms seen ts)) \<inter> seen = {}"
proof (induction ts arbitrary: seen)
  case Nil
  then show ?case by simp
next
  case (Cons t ts)
  show ?case
  proof (cases "Name t \<in> seen")
    case True
    then show ?thesis using Cons.IH [of seen] by simp
  next
    case False
    then show ?thesis using Cons.IH [of "insert (Name t) seen"] by auto
  qed
qed

lemma dedupTerms_find:
  "find (\<lambda>x. Name x = n) (dedupTerms seen ts) =
     (if n \<in> seen then None else find (\<lambda>x. Name x = n) ts)"
proof (induction ts arbitrary: seen)
  case Nil
  then show ?case by simp
next
  case (Cons t ts)
  show ?case
  proof (cases "Name t \<in> seen")
    case True
    then show ?thesis using Cons.IH [of seen] by auto
  next
    case False
    then show ?thesis using Cons.IH [of "insert (Name t) seen"] by auto
  qed
qed

text \<open>
  Claim C7, as amended. The terms of an incompatibility built by
  \<^verbatim>\<open>NewIncompatibilityNoVersions\<close> or \<^verbatim>\<open>NewIncompatibilityConflict\<close> have pairwise distinct
  package names, and \<^verbatim>\<open>NewIncompatibilityConflict\<close> keeps for every name the first term
  of its argument with that name. \<^verbatim>\<open>NewIncompatibilityFromDependency\<close> removes nothing:
  its terms are always the two terms "the package at the version" and the negated
  dependency, and their names are distinct exactly when the dependency names another
  package.
\<close>

theorem incompatibility_term_names:
  fixes t :: "'v Term" and ts :: "'v Term list" and dep :: "'v Term"
  shows
  "distinct (map Name (Terms (NewIncompatibilityNoVersions t))) \<and>
   distinct (map Name (Terms (NewIncompatibilityConflict ts c1 c2))) \<and>
   (\<forall>n. find (\<lambda>x. Name x = n) (Terms (NewIncompatibilityConflict ts c1 c2)) =
        find (\<lambda>x. Name x = n) ts) \<and>
   Terms (NewIncompatibilityFromDependency pkg ver dep) =
     [NewTerm pkg (EqualsCondition ver), Negate dep] \<and>
   (distinct (map Name (Terms (NewIncompatibilityFromDependency pkg ver dep))) = (Name dep \<noteq> pkg))"
  using dedupTerms_names [of "{}" ts] dedupTerms_find [of _ "{}" ts]
  by (auto simp: NewIncompatibilityNoVersions_def NewIncompatibilityConflict_def
      NewIncompatibilityFromDependency_def NewTerm_def Negate_def Let_def)

theorem incompatibility_term_names_witness:
  "map Name (Terms (NewIncompatibilityConflict
      [NewTerm ''a'' (EqualsCondition (Some (4::nat))), NewTerm ''b'' NoCondition,
       NewNegativeTerm ''a'' NoCondition] None None)) = [''a'', ''b''] \<and>
   find (\<lambda>x. Name x = ''a'') (Terms (NewIncompatibilityConflict
      [NewTerm ''a'' (EqualsCondition (Some (4::nat))), NewTerm ''b'' NoCondition,
       NewNegativeTerm ''a'' NoCondition] None None)) =
     Some (NewTerm ''a'' (EqualsCondition (Some 4))) \<and>
   distinct (map Name (Terms (NewIncompatibilityFromDependency ''a'' (Some (4::nat))
      (NewTerm ''b'' NoCondition))))"
  using incompatibility_term_names [where t = "NewTerm ''a'' NoCondition"
      and ts = "[NewTerm ''a'' (EqualsCondition (Some (4::nat))), NewTerm ''b'' NoCondition,
        NewNegativeTerm ''a'' NoCondition]" and ?c1.0 = None and ?c2.0 = None
      and dep = "NewTerm ''b'' NoCondition" and pkg = "''a''" and ver = "Some 4"]
  by (simp add: NewTerm_def NewNegativeTerm_def NewIncompatibilityConflict_def
      NewIncompatibilityFromDependency_def NewIncompatibilityNoVersions_def Negate_def Let_def)

text \<open>
  Claim C7 as stated fails for a package that depends on itself: the two terms of the
  dependency incompatibility carry the same name.
\<close>

theorem dependency_on_itself_counterexample:
  "\<not> distinct (map Name (Terms (NewIncompatibilityFromDependency ''a'' (Some (1::nat))
        (NewTerm ''a'' (EqualsCondition (Some 2))))))"
  by (simp add: NewIncompatibilityFromDependency_def NewTerm_def Negate_def Let_def)

section \<open>Derivations\<close>

text \<open>
  Claim C8. For a term whose condition converts to a version set, let \<open>S\<close> be the term's
  allowed set if it is positive and the complement of its forbidden set if it is
  negative. \<^verbatim>\<open>addDerivation\<close> returns the error \<^verbatim>\<open>errNoAllowedVersions\<close> exactly when the
  intersection of the package's current allowed set with \<open>S\<close> is empty, and then it
  leaves the partial solution as it was: log, stacks, decision level and next index.
\<close>

theorem addDerivation_no_allowed_versions:
  assumes "(if Positive t then termAllowedSet t
            else map_option Complement (termForbiddenSet t)) = Some S"
  shows "(fst (addDerivation ps t c) = Inl errNoAllowedVersions) =
           IsEmpty (Intersection (allowedSet ps (Name t)) S) \<and>
         (fst (addDerivation ps t c) = Inl errNoAllowedVersions \<longrightarrow>
            snd (addDerivation ps t c) = ps \<and>
            assignments (snd (addDerivation ps t c)) = assignments ps \<and>
            perPackage (snd (addDerivation ps t c)) = perPackage ps \<and>
            decisionLvl (snd (addDerivation ps t c)) = decisionLvl ps \<and>
            nextIndex (snd (addDerivation ps t c)) = nextIndex ps)"
proof (cases "Positive t")
  case True
  with assms have "termAllowedSet t = Some S" by simp
  with True show ?thesis
    by (simp add: addDerivation_def applyTermToAllowed_def Let_def)
next
  case False
  with assms obtain F where F: "termForbiddenSet t = Some F" "S = Complement F"
    by auto
  with False show ?thesis
    by (simp add: addDerivation_def applyTermToAllowed_def Let_def)
qed

theorem addDerivation_no_allowed_versions_witness:
  "fst (addDerivation exampleSeeded (NewTerm ''$$root'' (EqualsCondition (Some 2))) None) =
     Inl errNoAllowedVersions \<and>
   snd (addDerivation exampleSeeded (NewTerm ''$$root'' (EqualsCondition (Some 2))) None) =
     exampleSeeded \<and>
   fst (addDerivation exampleSeeded (NewTerm ''$$root'' (EqualsCondition (Some 1))) None) \<noteq>
     Inl errNoAllowedVersions"
proof -
  have c1: "(if Positive (NewTerm ''$$root'' (EqualsCondition (Some (1::nat))))
             then termAllowedSet (NewTerm ''$$root'' (EqualsCondition (Some (1::nat))))
             else map_option Complement
                    (termForbiddenSet (NewTerm ''$$root'' (EqualsCondition (Some (1::nat)))))) =
            Some (Singleton (Some (1::nat)))"
    by (simp add: NewTerm_def termAllowedSet_def)
  have c2: "(if Positive (NewTerm ''$$root'' (EqualsCondition (Some (2::nat))))
             then termAllowedSet (NewTerm ''$$root'' (EqualsCondition (Some (2::nat))))
             else map_option Complement
                    (termForbiddenSet (NewTerm ''$$root'' (EqualsCondition (Some (2::nat)))))) =
            Some (Singleton (Some (2::nat)))"
    by (simp add: NewTerm_def termAllowedSet_def)
  have e1: "\<not> IsEmpty (Intersection (allowedSet exampleSeeded ''$$root'') (Singleton (Some 1)))"
    by (simp add: allowedSet_exampleSeeded_root Singleton_Some Intersection_def
        intersectInterval_def max_cmp_def min_cmp_def newInterval_def Sort_def
        newVersionIntervalSet_def normalizeIntervals_def sortByLower_def IsEmpty_def)
  have e2: "IsEmpty (Intersection (allowedSet exampleSeeded ''$$root'') (Singleton (Some 2)))"
    by (simp add: allowedSet_exampleSeeded_root Singleton_Some Intersection_def
        intersectInterval_def max_cmp_def min_cmp_def newInterval_def Sort_def
        newVersionIntervalSet_def normalizeIntervals_def sortByLower_def IsEmpty_def)
  from addDerivation_no_allowed_versions [OF c1, of exampleSeeded None]
       addDerivation_no_allowed_versions [OF c2, of exampleSeeded None] e1 e2
  show ?thesis
    by (simp add: NewTerm_def)
qed

section \<open>Catalog errors in the decision step\<close>




section \<open>Terms\<close>

text \<open>
  Claim C10. For every term \<open>t\<close>, \<^verbatim>\<open>t.SatisfiedBy(nil)\<close> returns true exactly when \<open>t\<close> is
  negative, whatever the term's condition.
\<close>

theorem SatisfiedBy_nil_version:
  "SatisfiedBy str t None = Some (\<not> Positive t)"
  by (simp add: SatisfiedBy_def)

theorem SatisfiedBy_nil_version_witness:
  "SatisfiedBy exampleString (NewNegativeTerm ''a'' (EqualsCondition (Some 1))) None = Some True \<and>
   SatisfiedBy exampleString (NewTerm ''a'' (EqualsCondition (Some 1))) None = Some False"
  using SatisfiedBy_nil_version [of exampleString "NewNegativeTerm ''a'' (EqualsCondition (Some 1))"]
        SatisfiedBy_nil_version [of exampleString "NewTerm ''a'' (EqualsCondition (Some 1))"]
  by (simp add: NewNegativeTerm_def NewTerm_def)

section \<open>Adjacent intervals\<close>

lemma exampleLeft_eq:
  "exampleLeft = [Interval (boundFinite 1 True) (boundFinite 2 False)]"
  by (simp add: exampleLeft_def intervalSetFromBounds_def newInterval_def Sort_def
      newVersionIntervalSet_def normalizeIntervals_def sortByLower_def)

lemma exampleRight_eq:
  "exampleRight = [Interval (boundFinite 2 True) (boundFinite 3 True)]"
  by (simp add: exampleRight_def intervalSetFromBounds_def newInterval_def Sort_def
      newVersionIntervalSet_def normalizeIntervals_def sortByLower_def)

lemma union_example:
  "Union_vs exampleLeft exampleRight =
     [Interval (boundFinite 1 True) (boundFinite 2 False),
      Interval (boundFinite 2 True) (boundFinite 3 True)]"
  by (simp add: exampleLeft_eq exampleRight_eq Union_vs_def newVersionIntervalSet_def
      normalizeIntervals_def sortByLower_def Sort_def touches_def)

lemma complement_union_example:
  "Complement (Union_vs exampleLeft exampleRight) =
     [Interval boundNegativeInfinity (boundFinite 1 False),
      Interval (boundFinite 3 False) boundPositiveInfinity]"
  unfolding union_example
  by (simp add: Complement_def newVersionIntervalSet_def normalizeIntervals_def sortByLower_def
      Sort_def touches_def newInterval_def negativeInfinityBound_def positiveInfinityBound_def)

lemma complement_twice_example:
  "Complement (Complement (Union_vs exampleLeft exampleRight)) =
     [Interval (boundFinite 1 True) (boundFinite 3 True)]"
  unfolding complement_union_example
  by (simp add: Complement_def newVersionIntervalSet_def normalizeIntervals_def sortByLower_def
      Sort_def touches_def newInterval_def negativeInfinityBound_def positiveInfinityBound_def)

text \<open>
  Claim C3 fails on the code: \<^verbatim>\<open>touches\<close> is the same test as \<^verbatim>\<open>overlaps\<close>, so the union
  of \<open>[1, 2)\<close> and \<open>[2, 3]\<close> stays two intervals, although they are adjacent with
  compatible inclusivity: the first ends just below the version 2, with which the second
  begins.
\<close>

theorem union_keeps_adjacent_intervals:
  "Union_vs exampleLeft exampleRight =
     [Interval (boundFinite 1 True) (boundFinite 2 False),
      Interval (boundFinite 2 True) (boundFinite 3 True)] \<and>
   touches (Interval (boundFinite 1 True) (boundFinite 2 False))
           (Interval (boundFinite 2 True) (boundFinite (3::nat) True)) = False \<and>
   Contains (Union_vs exampleLeft exampleRight) (Some 2) = True"
  by (simp add: union_example touches_def Sort_def belowLower_def aboveUpper_def)

text \<open>
  Claim C4 fails on the code at the same set: the complement of the complement of the
  union of \<open>[1, 2)\<close> and \<open>[2, 3]\<close> is the single interval \<open>[1, 3]\<close>, not the union itself,
  and \<^verbatim>\<open>setsEqual\<close> tells the two apart.
\<close>

theorem complement_twice_differs:
  "Complement (Complement (Union_vs exampleLeft exampleRight)) =
     [Interval (boundFinite 1 True) (boundFinite 3 True)] \<and>
   Complement (Complement (Union_vs exampleLeft exampleRight)) \<noteq>
     Union_vs exampleLeft exampleRight \<and>
   setsEqual (Complement (Complement (Union_vs exampleLeft exampleRight)))
     (Union_vs exampleLeft exampleRight) = False"
proof -
  have se: "setsEqual [Interval (boundFinite 1 True) (boundFinite (3::nat) True)]
      [Interval (boundFinite 1 True) (boundFinite 2 False),
       Interval (boundFinite 2 True) (boundFinite 3 True)] = False"
    by (simp add: setsEqual_def IsSubset_def covers_def Sort_def)
  show ?thesis
    unfolding complement_twice_example unfolding union_example using se by simp
qed

section \<open>Classifying a term against a union of adjacent intervals\<close>

lemma exampleWhole_eq:
  "exampleWhole = [Interval (boundFinite 1 True) (boundFinite 3 True)]"
  by (simp add: exampleWhole_def intervalSetFromBounds_def newInterval_def Sort_def
      newVersionIntervalSet_def normalizeIntervals_def sortByLower_def)

lemma Intersection_Full_exampleWhole: "Intersection FullVersionSet exampleWhole = exampleWhole"
  unfolding exampleWhole_eq
  by (simp add: Intersection_def FullVersionSet_def negativeInfinityBound_def
      positiveInfinityBound_def intersectInterval_def max_cmp_def min_cmp_def newInterval_def
      Sort_def newVersionIntervalSet_def normalizeIntervals_def sortByLower_def)

lemma exampleRanged_eq:
  "exampleRanged =
     append_assignment exampleSeeded
       \<lparr>pkgName = ''a'', pkgTerm = NewTerm ''a'' (NewVersionSetCondition exampleWhole),
        kind = assignmentDerivation, allowed = Some exampleWhole, forbidden = None,
        version = None, cause = None, decisionLevel = 0, index = 1\<rparr>"
proof -
  have ne: "\<not> IsEmpty exampleWhole"
    by (simp add: exampleWhole_eq IsEmpty_def)
  have ap: "applyTermToAllowed (Some (allowedSet exampleSeeded ''a''))
      (NewTerm ''a'' (NewVersionSetCondition exampleWhole)) = Inr exampleWhole"
    by (simp add: applyTermToAllowed_def allowedSet_exampleSeeded_other NewTerm_def
        termAllowedSet_def NewVersionSetCondition_def Intersection_Full_exampleWhole)
  have nm: "Name (NewTerm ''a'' (NewVersionSetCondition exampleWhole)) = ''a''"
           "Positive (NewTerm ''a'' (NewVersionSetCondition exampleWhole))"
    by (simp_all add: NewTerm_def)
  show ?thesis
    unfolding exampleRanged_def addDerivation_def
    by (simp add: ap nm ne Let_def counters_exampleSeeded)
qed

lemma stackOf_exampleRanged:
  "stackOf exampleRanged ''a'' =
     [\<lparr>pkgName = ''a'', pkgTerm = NewTerm ''a'' (NewVersionSetCondition exampleWhole),
       kind = assignmentDerivation, allowed = Some exampleWhole, forbidden = None,
       version = None, cause = None, decisionLevel = 0, index = 1\<rparr>]"
  by (simp add: exampleRanged_eq stackOf_append_assignment stackOf_exampleSeeded_other)

lemma allowedSet_exampleRanged: "allowedSet exampleRanged ''a'' = exampleWhole"
  by (simp add: allowedSet_def Let_def stackOf_exampleRanged NewTerm_def
      Intersection_Full_exampleWhole)

lemma hasAssignments_exampleRanged: "hasAssignments exampleRanged ''a''"
  by (simp add: hasAssignments_def stackOf_exampleRanged)

lemma solverReachable_exampleRanged: "solverReachable exampleRanged"
  unfolding exampleRanged_def exampleSeeded_def
  by (intro solverReachable.derived solverReachable.seeded)

lemma same_versions_example:
  "Contains exampleWhole v = Contains (Union_vs exampleLeft exampleRight) v"
  unfolding union_example exampleWhole_eq
  by (cases v) (auto simp: belowLower_def aboveUpper_def Sort_def)

lemma nothing_outside_example:
  "Intersection exampleWhole (Complement (Union_vs exampleLeft exampleRight)) = []"
  unfolding complement_union_example exampleWhole_eq
  by (simp add: Intersection_def intersectInterval_def max_cmp_def min_cmp_def newInterval_def
      Sort_def newVersionIntervalSet_def normalizeIntervals_def sortByLower_def)

lemma tests_example:
  "\<not> IsSubset exampleWhole (Union_vs exampleLeft exampleRight) \<and>
   \<not> IsDisjoint exampleWhole (Union_vs exampleLeft exampleRight)"
  unfolding union_example exampleWhole_eq
  by (simp add: IsSubset_def IsDisjoint_def covers_def overlaps_def Sort_def)

lemma mergeTerms_example:
  "mergeTerms (NewNegativeTerm ''a'' (NewVersionSetCondition exampleLeft))
     (NewNegativeTerm ''a'' (NewVersionSetCondition exampleRight)) =
   Some (termFromForbiddenSet ''a'' (Union_vs exampleLeft exampleRight))"
  by (simp add: mergeTerms_def NewNegativeTerm_def NewVersionSetCondition_def
      termForbiddenSet_def)

text \<open>
  Claim C2 fails on the code. Package \<open>a\<close> has an assignment and the allowed set
  \<open>A = [1, 3]\<close>. The set \<open>R\<close> is the union of \<open>[1, 2)\<close> and \<open>[2, 3]\<close> as \<^verbatim>\<open>Union\<close> returns it,
  two intervals; it holds the same versions as \<open>A\<close>, and the intersection of \<open>A\<close> with the
  complement of \<open>R\<close> is empty, so \<open>A \<subseteq> R\<close>. The positive term that requires \<open>R\<close> should be
  satisfied, and the negative term that forbids \<open>R\<close>, which \<^verbatim>\<open>mergeTerms\<close> builds from the
  terms that forbid \<open>[1, 2)\<close> and \<open>[2, 3]\<close>, should be contradicted. \<^verbatim>\<open>relationForTerm\<close>
  returns inconclusive for both: \<^verbatim>\<open>IsSubset\<close> looks for one interval of \<open>R\<close> that covers the
  interval \<open>[1, 3]\<close>, and \<^verbatim>\<open>Union\<close> has left the adjacent intervals unmerged.
\<close>

theorem relationForTerm_misses_inclusion:
  "solverReachable exampleRanged \<and>
   hasAssignments exampleRanged ''a'' \<and>
   allowedSet exampleRanged ''a'' = exampleWhole \<and>
   (\<forall>v. Contains exampleWhole v = Contains (Union_vs exampleLeft exampleRight) v) \<and>
   IsEmpty (Intersection exampleWhole (Complement (Union_vs exampleLeft exampleRight))) \<and>
   IsSubset exampleWhole (Union_vs exampleLeft exampleRight) = False \<and>
   termAllowedSet (NewTerm ''a'' (NewVersionSetCondition (Union_vs exampleLeft exampleRight))) =
     Some (Union_vs exampleLeft exampleRight) \<and>
   relationForTerm (NewTerm ''a'' (NewVersionSetCondition (Union_vs exampleLeft exampleRight)))
     (Some (allowedSet exampleRanged ''a'')) (hasAssignments exampleRanged ''a'') =
     relationInconclusive \<and>
   mergeTerms (NewNegativeTerm ''a'' (NewVersionSetCondition exampleLeft))
     (NewNegativeTerm ''a'' (NewVersionSetCondition exampleRight)) =
     Some (termFromForbiddenSet ''a'' (Union_vs exampleLeft exampleRight)) \<and>
   termForbiddenSet (termFromForbiddenSet ''a'' (Union_vs exampleLeft exampleRight)) =
     Some (Union_vs exampleLeft exampleRight) \<and>
   relationForTerm (termFromForbiddenSet ''a'' (Union_vs exampleLeft exampleRight))
     (Some (allowedSet exampleRanged ''a'')) (hasAssignments exampleRanged ''a'') =
     relationInconclusive"
proof -
  have pos: "relationForTerm
      (NewTerm ''a'' (NewVersionSetCondition (Union_vs exampleLeft exampleRight)))
      (Some exampleWhole) True = relationInconclusive"
    using tests_example
    by (simp add: relationForTerm_def NewTerm_def NewVersionSetCondition_def termAllowedSet_def)
  have neg: "relationForTerm (termFromForbiddenSet ''a'' (Union_vs exampleLeft exampleRight))
      (Some exampleWhole) True = relationInconclusive"
    using tests_example
    by (simp add: relationForTerm_def termFromForbiddenSet_def NewVersionSetCondition_def
        termForbiddenSet_def)
  have ta: "termAllowedSet
      (NewTerm ''a'' (NewVersionSetCondition (Union_vs exampleLeft exampleRight))) =
      Some (Union_vs exampleLeft exampleRight)"
    by (simp add: NewTerm_def NewVersionSetCondition_def termAllowedSet_def)
  have tf: "termForbiddenSet (termFromForbiddenSet ''a'' (Union_vs exampleLeft exampleRight)) =
      Some (Union_vs exampleLeft exampleRight)"
    by (simp add: termFromForbiddenSet_def NewVersionSetCondition_def termForbiddenSet_def)
  have em: "IsEmpty (Intersection exampleWhole (Complement (Union_vs exampleLeft exampleRight)))"
    by (simp add: nothing_outside_example IsEmpty_def)
  from pos neg ta tf em same_versions_example tests_example mergeTerms_example
    solverReachable_exampleRanged
  show ?thesis
    by (simp add: hasAssignments_exampleRanged allowedSet_exampleRanged)
qed

end
